(* ===== verification/Prelude.thy ===== *)
theory Prelude
  imports Main "HOL-Library.Word" "HOL-Library.Multiset"
begin

text \<open>
  Shared vocabulary of the development: the byte and integer types of the Go program, the
  collections of facts the component theories register their lemmas in, and the generic
  lemmas on lists and maps that several components use.
\<close>

subsection \<open>Types\<close>

type_synonym byte = "8 word"
type_synonym bytes = "byte list"
type_synonym uint16 = "16 word"
type_synonym uint32 = "32 word"
type_synonym uint64 = "64 word"

text \<open>
  Go's \<open>int\<close> and \<open>int64\<close> are modelled by HOL's \<open>int\<close>; where the code computes with
  values that can leave the range, the wrap-around is written with \<open>i64\<close>.
\<close>

definition i64 :: "int \<Rightarrow> int" where
  "i64 x = (x + 2 ^ 63) mod 2 ^ 64 - 2 ^ 63"

text \<open>Go's integer division truncates towards zero.\<close>

definition go_quot :: "int \<Rightarrow> int \<Rightarrow> int" where
  "go_quot a b = sgn a * sgn b * (\<bar>a\<bar> div \<bar>b\<bar>)"

subsection \<open>Fact collections\<close>

named_theorems pool_simps \<open>unfolding rules of the resolver pool\<close>
named_theorems pool_inv_intros \<open>preservation of the pool invariant\<close>
named_theorems cache_simps \<open>unfolding rules of the DNS cache\<close>

subsection \<open>Integers\<close>

lemma i64_id [simp]: "- (2 ^ 63) \<le> x \<Longrightarrow> x < 2 ^ 63 \<Longrightarrow> i64 x = x"
  by (simp add: i64_def)

lemma i64_bounds: "- (2 ^ 63) \<le> i64 x \<and> i64 x < 2 ^ 63"
proof -
  have "0 \<le> (x + 2 ^ 63) mod 2 ^ 64" and "(x + 2 ^ 63) mod 2 ^ 64 < 2 ^ 64"
    by simp_all
  then show ?thesis by (simp add: i64_def)
qed

lemma go_quot_nonneg: "0 \<le> a \<Longrightarrow> 0 < b \<Longrightarrow> go_quot a b = a div b"
  by (cases "a = 0") (simp_all add: go_quot_def sgn_if)

lemma go_quot_zero [simp]: "go_quot 0 b = 0"
  by (simp add: go_quot_def)

subsection \<open>Lists\<close>

lemma filter_ne_all: "filter P xs = [] \<longleftrightarrow> (\<forall>x \<in> set xs. \<not> P x)"
  by (simp add: filter_empty_conv)

lemma nth_mod_mem: "xs \<noteq> [] \<Longrightarrow> xs ! (k mod length xs) \<in> set xs"
  by simp

lemma remove1_distinct_filter: "distinct xs \<Longrightarrow> remove1 x xs = filter (\<lambda>y. y \<noteq> x) xs"
  by (auto simp: distinct_remove1_removeAll removeAll_filter_not_eq intro: filter_cong)

lemma set_take_mono: "x \<in> set (take n xs) \<Longrightarrow> x \<in> set xs"
  by (rule in_set_takeD)

lemma take_butlast_eq: "n < length xs \<Longrightarrow> take n (butlast xs) = take n xs"
  by (simp add: butlast_conv_take)

end
