(* ===== verification/GoRuntime.thy ===== *)
theory GoRuntime
  imports Prelude
begin

text \<open>
  The parts of the Go runtime the program's control flow rests on: the outcome of a call
  (it returns, it panics, or it waits for a lock that it never gets), the reader/writer
  mutex \<open>sync.RWMutex\<close>, and \<open>rand.Intn\<close>.
\<close>

subsection \<open>Outcomes\<close>

datatype 'a outcome = Done 'a | Blocked | Panic

fun is_done :: "'a outcome \<Rightarrow> bool" where
  "is_done (Done _) = True"
| "is_done _ = False"

text \<open>Sequencing of calls on a state: a call that blocks or panics ends the sequence.\<close>

definition and_then :: "'a outcome \<times> 's \<Rightarrow> ('a \<Rightarrow> 's \<Rightarrow> 'b outcome \<times> 's) \<Rightarrow> 'b outcome \<times> 's" where
  "and_then m f = (case m of (Done a, s) \<Rightarrow> f a s | (Blocked, s) \<Rightarrow> (Blocked, s) | (Panic, s) \<Rightarrow> (Panic, s))"

lemma and_then_simps [simp]:
  "and_then (Done a, s) f = f a s" "and_then (Blocked, s) f = (Blocked, s)"
  "and_then (Panic, s) f = (Panic, s)"
  by (simp_all add: and_then_def)

subsection \<open>Reader/writer mutex\<close>

text \<open>
  \<open>Readers n\<close> is held by \<open>n\<close> readers (free when \<open>n = 0\<close>), \<open>Writer\<close> by one writer. An
  acquisition that has to wait is \<open>None\<close>. The mutex is not reentrant: it does not record
  who holds it, so a goroutine that asks again while it is the writer waits like any other.
\<close>

datatype rwmutex = Readers nat | Writer

fun rw_Lock :: "rwmutex \<Rightarrow> rwmutex option" where
  "rw_Lock (Readers n) = (if n = 0 then Some Writer else None)"
| "rw_Lock Writer = None"

fun rw_Unlock :: "rwmutex \<Rightarrow> rwmutex option" where
  "rw_Unlock Writer = Some (Readers 0)"
| "rw_Unlock (Readers _) = None"

fun rw_RLock :: "rwmutex \<Rightarrow> rwmutex option" where
  "rw_RLock (Readers n) = Some (Readers (Suc n))"
| "rw_RLock Writer = None"

fun rw_RUnlock :: "rwmutex \<Rightarrow> rwmutex option" where
  "rw_RUnlock (Readers (Suc n)) = Some (Readers n)"
| "rw_RUnlock _ = None"

lemma rw_Lock_Some [simp]: "rw_Lock m = Some m' \<longleftrightarrow> m = Readers 0 \<and> m' = Writer"
  by (cases m) auto

lemma rw_RLock_RUnlock: "rw_RLock m = Some m' \<Longrightarrow> rw_RUnlock m' = Some m"
  by (cases m) auto

lemma rw_Lock_Unlock: "rw_Lock m = Some m' \<Longrightarrow> rw_Unlock m' = Some m"
  by simp

subsection \<open>Maps\<close>

text \<open>Reading a Go map at a missing key gives the zero value \<open>z\<close> of the element type.\<close>

definition map_get :: "'v \<Rightarrow> ('k \<rightharpoonup> 'v) \<Rightarrow> 'k \<Rightarrow> 'v" where
  "map_get z m k = (case m k of None \<Rightarrow> z | Some v \<Rightarrow> v)"

lemma map_get_upd [simp]: "map_get z (m(k \<mapsto> v)) = (map_get z m)(k := v)"
  by (simp add: map_get_def fun_eq_iff)

lemma map_get_empty [simp]: "map_get z Map.empty k = z"
  by (simp add: map_get_def)

lemma map_get_Some: "m k = Some v \<Longrightarrow> map_get z m k = v"
  by (simp add: map_get_def)

lemma map_get_True: "map_get False m k \<longleftrightarrow> m k = Some True"
  by (simp add: map_get_def split: option.splits)

subsection \<open>Random numbers\<close>

text \<open>
  \<open>rand.Intn(n)\<close> returns some value below \<open>n\<close> and panics for \<open>n \<le> 0\<close>. The model draws
  from a supply of arbitrary naturals reduced modulo \<open>n\<close>: every value below \<open>n\<close> is the
  result for some supply.
\<close>

definition intn :: "nat \<Rightarrow> nat \<Rightarrow> nat outcome" where
  "intn draw n = (if n = 0 then Panic else Done (draw mod n))"

lemma intn_pos [simp]: "0 < n \<Longrightarrow> intn draw n = Done (draw mod n)"
  by (simp add: intn_def)

lemma intn_zero [simp]: "intn draw 0 = Panic"
  by (simp add: intn_def)

end
