(* ===== verification/GoFloat.thy ===== *)
theory GoFloat
  imports Complex_Main Prelude
begin

text \<open>
  The \<open>float64\<close> arithmetic the resolver score uses. A finite double is represented by the
  rational number it denotes; every operation is the exact rational operation followed by
  \<open>fl\<close>, the rounding to the nearest rational with a 53-bit significand, ties to even, as
  IEEE 754 prescribes. Exponent range is not represented: the values here lie between
  \<open>2 powi (- 200)\<close> and \<open>2 powi 200\<close> (or are zero), where a double neither overflows nor is
  subnormal.
\<close>

subsection \<open>Exponents\<close>

function ilog2 :: "int \<Rightarrow> int" where
  "ilog2 n = (if n \<le> 1 then 0 else 1 + ilog2 (n div 2))"
  by pat_completeness auto
termination
  by (relation "measure nat") auto

declare ilog2.simps [simp del]

lemma ilog2_nonneg: "0 \<le> ilog2 n"
  by (induction n rule: ilog2.induct) (subst ilog2.simps, simp)

lemma halve_bounds: "(p :: int) \<le> n div 2 \<Longrightarrow> n div 2 < 2 * p \<Longrightarrow> 2 * p \<le> n \<and> n < 2 * (2 * p)"
  by presburger

lemma ilog2_bounds: "0 < n \<Longrightarrow> 2 ^ nat (ilog2 n) \<le> n \<and> n < 2 ^ Suc (nat (ilog2 n))"
proof (induction n rule: ilog2.induct)
  case (1 n)
  show ?case
  proof (cases "n \<le> 1")
    case True
    with 1 show ?thesis by (subst (1 2) ilog2.simps) simp
  next
    case False
    with 1 have "2 ^ nat (ilog2 (n div 2)) \<le> n div 2" "n div 2 < 2 ^ Suc (nat (ilog2 (n div 2)))"
      by auto
    moreover have "nat (ilog2 n) = Suc (nat (ilog2 (n div 2)))"
      using False ilog2_nonneg [of "n div 2"] by (subst ilog2.simps) simp
    ultimately show ?thesis by (simp only: power_Suc halve_bounds)
  qed
qed

definition expo :: "rat \<Rightarrow> int" where
  "expo q = (let (n, d) = quotient_of q;
                 k = ilog2 n - ilog2 d
             in if 2 powi k \<le> q then k else k - 1)"

lemma powi_strict_mono_iff: "(2 :: rat) powi a < 2 powi b \<longleftrightarrow> a < b"
  using power_int_strict_increasing [of a b "2 :: rat"] power_int_increasing [of b a "2 :: rat"]
  by (cases "a < b") (auto simp: not_less)

lemma powi_mono: "a \<le> b \<Longrightarrow> (2 :: rat) powi a \<le> 2 powi b"
  by (simp add: power_int_increasing)

lemma powi_pos: "(0 :: rat) < 2 powi a"
  by simp

lemma powi_add: "(2 :: rat) powi (a + b) = 2 powi a * 2 powi b"
  by (simp add: power_int_add)

lemma ilog2_rat_bounds:
  assumes "0 < n"
  shows "(2 :: rat) powi ilog2 n \<le> of_int n"
    and "of_int n < (2 :: rat) powi (ilog2 n + 1)"
proof -
  obtain k where k: "ilog2 n = int k" using ilog2_nonneg [of n] nonneg_int_cases by blast
  from ilog2_bounds [OF assms]
  have "rat_of_int (2 ^ k) \<le> of_int n" "rat_of_int n < of_int (2 ^ Suc k)"
    by (simp_all only: of_int_le_iff of_int_less_iff k nat_int)
  then show "(2 :: rat) powi ilog2 n \<le> of_int n" and "of_int n < (2 :: rat) powi (ilog2 n + 1)"
    by (simp_all add: k powi_add)
qed

lemma expo_bounds:
  assumes "0 < q"
  shows "2 powi (expo q) \<le> q" and "q < 2 powi (expo q + 1)"
proof -
  obtain n d where nd: "quotient_of q = (n, d)" by force
  let ?a = "ilog2 n" and ?b = "ilog2 d"
  have d: "0 < d" and q: "q = of_int n / of_int d"
    using nd quotient_of_denom_pos quotient_of_div by blast+
  with assms have n: "0 < n" by (simp add: zero_less_divide_iff)
  note na = ilog2_rat_bounds [OF n] and da = ilog2_rat_bounds [OF d]
  have lo: "2 powi (?a - ?b - 1) \<le> q"
  proof -
    have "2 powi (?a - ?b - 1) * of_int d \<le> (2 :: rat) powi (?a - ?b - 1) * 2 powi (?b + 1)"
      using da(2) by (intro mult_left_mono) auto
    also have "\<dots> = 2 powi ?a" by (simp flip: powi_add)
    also have "\<dots> \<le> of_int n" by (rule na(1))
    finally show ?thesis using d q by (simp add: pos_le_divide_eq)
  qed
  have hi: "q < 2 powi (?a - ?b + 1)"
  proof -
    have "of_int n < (2 :: rat) powi (?a + 1)" by (rule na(2))
    also have "\<dots> = 2 powi (?a - ?b + 1) * 2 powi ?b"
      unfolding powi_add [symmetric] by simp
    also have "\<dots> \<le> 2 powi (?a - ?b + 1) * of_int d"
      using da(1) by (intro mult_left_mono) auto
    finally show ?thesis using d q by (simp add: pos_divide_less_eq)
  qed
  show "2 powi (expo q) \<le> q" and "q < 2 powi (expo q + 1)"
    using lo hi by (auto simp: expo_def nd Let_def)
qed

lemma expo_unique:
  assumes "2 powi e \<le> q" and "q < 2 powi (e + 1)"
  shows "expo q = e"
proof -
  have q: "0 < q" using assms(1) powi_pos [of e] by linarith
  have "(2 :: rat) powi e < 2 powi (expo q + 1)"
    using assms(1) expo_bounds(2) [OF q] by linarith
  moreover have "(2 :: rat) powi expo q < 2 powi (e + 1)"
    using assms(2) expo_bounds(1) [OF q] by linarith
  ultimately show ?thesis by (simp only: powi_strict_mono_iff)
qed

lemma expo_mono:
  assumes "0 < p" "p \<le> q"
  shows "expo p \<le> expo q"
proof -
  have "(2 :: rat) powi expo p < 2 powi (expo q + 1)"
    using expo_bounds(1) [OF assms(1)] expo_bounds(2) [of q] assms by linarith
  then show ?thesis by (simp only: powi_strict_mono_iff)
qed

subsection \<open>Rounding\<close>

definition rnd_even :: "rat \<Rightarrow> int" where
  "rnd_even x = (let f = \<lfloor>x\<rfloor>; r = x - of_int f
                 in if r < 1 / 2 then f
                    else if 1 / 2 < r then f + 1
                    else if even f then f else f + 1)"

lemma rnd_even_range: "\<lfloor>x\<rfloor> \<le> rnd_even x \<and> rnd_even x \<le> \<lfloor>x\<rfloor> + 1"
  by (simp add: rnd_even_def Let_def)

lemma rnd_even_of_int [simp]: "rnd_even (of_int k) = k"
  by (simp add: rnd_even_def)

lemma rnd_even_mono:
  assumes "x \<le> y"
  shows "rnd_even x \<le> rnd_even y"
proof (cases "\<lfloor>x\<rfloor> = \<lfloor>y\<rfloor>")
  case True
  with assms show ?thesis by (auto simp: rnd_even_def Let_def)
next
  case False
  with assms have "\<lfloor>x\<rfloor> + 1 \<le> \<lfloor>y\<rfloor>" using floor_mono [OF assms] by linarith
  then show ?thesis using rnd_even_range [of x] rnd_even_range [of y] by linarith
qed

definition fl_pos :: "rat \<Rightarrow> rat" where
  "fl_pos q = of_int (rnd_even (q * 2 powi (52 - expo q))) * 2 powi (expo q - 52)"

definition fl :: "rat \<Rightarrow> rat" where
  "fl q = (if q = 0 then 0 else if q < 0 then - fl_pos (- q) else fl_pos q)"

lemma fl_zero [simp]: "fl 0 = 0"
  by (simp add: fl_def)

lemma fl_pos_bounds:
  assumes "0 < q"
  shows "2 powi expo q \<le> fl_pos q" and "fl_pos q \<le> 2 powi (expo q + 1)"
proof -
  let ?s = "q * 2 powi (52 - expo q)"
  have "(2 :: rat) powi expo q * 2 powi (52 - expo q) \<le> ?s"
    using expo_bounds(1) [OF assms] by (intro mult_right_mono) auto
  then have "of_int (2 ^ 52) \<le> ?s" by (simp flip: powi_add)
  then have "rnd_even (of_int (2 ^ 52)) \<le> rnd_even ?s" by (rule rnd_even_mono)
  then have lo: "2 ^ 52 \<le> rnd_even ?s" by (simp only: rnd_even_of_int)
  have "?s \<le> (2 :: rat) powi (expo q + 1) * 2 powi (52 - expo q)"
    using expo_bounds(2) [OF assms] by (intro mult_right_mono) auto
  then have "?s \<le> of_int (2 ^ 53)" by (simp flip: powi_add)
  then have "rnd_even ?s \<le> rnd_even (of_int (2 ^ 53))" by (rule rnd_even_mono)
  then have hi: "rnd_even ?s \<le> 2 ^ 53" by (simp only: rnd_even_of_int)
  have "(2 :: rat) powi expo q = of_int (2 ^ 52) * 2 powi (expo q - 52)"
    by (simp add: power_int_diff)
  also have "\<dots> \<le> fl_pos q"
    unfolding fl_pos_def using lo by (intro mult_right_mono) (simp_all only: of_int_le_iff powi_pos [THEN less_imp_le])
  finally show "2 powi expo q \<le> fl_pos q" .
  have "fl_pos q \<le> of_int (2 ^ 53) * 2 powi (expo q - 52)"
    unfolding fl_pos_def using hi by (intro mult_right_mono) (simp_all only: of_int_le_iff powi_pos [THEN less_imp_le])
  also have "\<dots> = 2 powi (expo q + 1)"
    by (simp add: power_int_diff power_int_add)
  finally show "fl_pos q \<le> 2 powi (expo q + 1)" .
qed

lemma fl_pos_mono:
  assumes "0 < p" "p \<le> q"
  shows "fl_pos p \<le> fl_pos q"
proof (cases "expo p = expo q")
  case True
  have "p * 2 powi (52 - expo q) \<le> q * 2 powi (52 - expo q)"
    using assms by (intro mult_right_mono) auto
  then show ?thesis
    unfolding fl_pos_def True by (intro mult_right_mono) (simp_all add: rnd_even_mono)
next
  case False
  with expo_mono [OF assms] have "expo p + 1 \<le> expo q" by simp
  then have "(2 :: rat) powi (expo p + 1) \<le> 2 powi expo q" by (rule powi_mono)
  then show ?thesis
    using fl_pos_bounds(2) [OF assms(1)] fl_pos_bounds(1) [of q] assms by linarith
qed

lemma fl_positive: "0 < q \<Longrightarrow> 0 < fl q"
  using less_le_trans [OF powi_pos fl_pos_bounds(1) [of q]] by (simp add: fl_def)

lemma fl_nonneg: "0 \<le> q \<Longrightarrow> 0 \<le> fl q"
  using fl_positive [of q] by (cases "q = 0") auto

lemma fl_mono: "0 \<le> p \<Longrightarrow> p \<le> q \<Longrightarrow> fl p \<le> fl q"
  using fl_pos_mono [of p q] fl_nonneg [of q] by (cases "p = 0") (auto simp: fl_def)

lemma fl_exact:
  assumes "\<bar>m\<bar> < 2 ^ 53"
  shows "fl (of_int m) = of_int m"
proof -
  have pos: "fl_pos (of_int k) = of_int k" if k: "0 < k" "k < 2 ^ 53" for k :: int
  proof -
    let ?q = "of_int k :: rat"
    have q: "0 < ?q" using k by simp
    have "(2 :: rat) powi expo ?q < 2 powi 53"
      using expo_bounds(1) [OF q] k(2) of_int_less_iff [of k "2 ^ 53", where ?'a = rat] by simp
    then have le: "expo ?q \<le> 52" by (simp only: powi_strict_mono_iff)
    then have "(2 :: rat) powi (52 - expo ?q) = of_int (2 ^ nat (52 - expo ?q))"
      by (simp add: power_int_def)
    then have "?q * 2 powi (52 - expo ?q) = of_int (k * 2 ^ nat (52 - expo ?q))"
      by simp
    then have "fl_pos ?q = ?q * 2 powi (52 - expo ?q) * 2 powi (expo ?q - 52)"
      unfolding fl_pos_def by (simp only: rnd_even_of_int)
    also have "\<dots> = ?q" by (simp add: mult.assoc flip: powi_add)
    finally show ?thesis .
  qed
  consider "m = 0" | "0 < m" | "m < 0" by linarith
  then show ?thesis
    using assms pos [of m] pos [of "- m"] by cases (simp_all add: fl_def)
qed

subsection \<open>Conversions from the integer types\<close>

definition float_of_uint64 :: "uint64 \<Rightarrow> rat" where
  "float_of_uint64 w = fl (of_int (uint w))"

definition float_of_int64 :: "int \<Rightarrow> rat" where
  "float_of_int64 i = fl (of_int i)"

lemma rat_uint_nonneg [simp]: "(0 :: rat) \<le> of_int (uint (w :: uint64))"
  by (simp only: of_int_0_le_iff uint_ge_0)

lemma float_of_uint64_nonneg: "0 \<le> float_of_uint64 w"
  unfolding float_of_uint64_def by (rule fl_nonneg, rule rat_uint_nonneg)

lemma float_of_uint64_pos: "0 < w \<Longrightarrow> 0 < float_of_uint64 w"
  unfolding float_of_uint64_def
  by (rule fl_positive) (simp only: of_int_0_less_iff word_less_def uint_0_eq)

lemma float_of_uint64_mono: "v \<le> w \<Longrightarrow> float_of_uint64 v \<le> float_of_uint64 w"
  unfolding float_of_uint64_def
  by (rule fl_mono, rule rat_uint_nonneg) (simp only: of_int_le_iff word_le_def)

lemma float_of_int64_mono: "0 \<le> i \<Longrightarrow> i \<le> j \<Longrightarrow> float_of_int64 i \<le> float_of_int64 j"
  by (simp add: float_of_int64_def fl_mono)

lemma fl_one [simp]: "fl 1 = 1"
  using fl_exact [of 1] by simp

lemma fl_minus [simp]: "fl (- q) = - fl q"
  by (simp add: fl_def)

subsection \<open>Conversion back to \<open>int64\<close>\<close>

text \<open>
  The conversion drops the fraction; a value out of range gives what the platform gives, \<open>oor\<close>.
\<close>

definition truncate_float :: "rat \<Rightarrow> int" where
  "truncate_float q = (if 0 \<le> q then \<lfloor>q\<rfloor> else - \<lfloor>- q\<rfloor>)"

definition int64_of_float :: "(rat \<Rightarrow> int) \<Rightarrow> rat \<Rightarrow> int" where
  "int64_of_float oor q =
     (let k = truncate_float q in if - (2 ^ 63) \<le> k \<and> k < 2 ^ 63 then k else oor q)"

lemma truncate_float_le: "0 \<le> q \<Longrightarrow> q \<le> of_int k \<Longrightarrow> 0 \<le> truncate_float q \<and> truncate_float q \<le> k"
  by (simp add: truncate_float_def floor_le_iff)

lemma truncate_float_minus: "truncate_float (- q) = - truncate_float q"
  by (auto simp: truncate_float_def)

end
