(* ===== verification/GoStrings.thy ===== *)
theory GoStrings
  imports Prelude
begin

text \<open>
  The functions of Go's \<open>strings\<close>, \<open>strconv\<close> and \<open>net\<close> packages the program calls, on byte
  strings (a \<open>char\<close> is a byte, as in a Go string), and their laws: splitting inverts
  joining, trimming is idempotent, \<open>Atoi\<close> inverts \<open>Itoa\<close>.
\<close>

subsection \<open>Prefixes, suffixes, substrings\<close>

definition HasPrefix :: "string \<Rightarrow> string \<Rightarrow> bool" where
  "HasPrefix s p \<longleftrightarrow> take (length p) s = p"

definition HasSuffix :: "string \<Rightarrow> string \<Rightarrow> bool" where
  "HasSuffix s p \<longleftrightarrow> length p \<le> length s \<and> drop (length s - length p) s = p"

definition TrimPrefix :: "string \<Rightarrow> string \<Rightarrow> string" where
  "TrimPrefix s p = (if HasPrefix s p then drop (length p) s else s)"

definition TrimSuffix :: "string \<Rightarrow> string \<Rightarrow> string" where
  "TrimSuffix s p = (if HasSuffix s p then take (length s - length p) s else s)"

fun Contains :: "string \<Rightarrow> string \<Rightarrow> bool" where
  "Contains [] p = (p = [])"
| "Contains (c # s) p = (HasPrefix (c # s) p \<or> Contains s p)"

lemma HasPrefix_append [simp]: "HasPrefix (p @ s) p"
  by (simp add: HasPrefix_def)

lemma HasPrefixE: "HasPrefix s p \<Longrightarrow> \<exists>t. s = p @ t"
  by (metis HasPrefix_def append_take_drop_id)

lemma TrimPrefix_append [simp]: "TrimPrefix (p @ s) p = s"
  by (simp add: TrimPrefix_def)

lemma HasSuffix_append [simp]: "HasSuffix (s @ p) p"
  by (simp add: HasSuffix_def)

lemma HasSuffixE: "HasSuffix s p \<Longrightarrow> \<exists>t. s = t @ p"
  by (metis HasSuffix_def append_take_drop_id)

lemma TrimSuffix_append [simp]: "TrimSuffix (s @ p) p = s"
  by (simp add: TrimSuffix_def)

lemma TrimSuffix_no: "\<not> HasSuffix s p \<Longrightarrow> TrimSuffix s p = s"
  by (simp add: TrimSuffix_def)

lemma set_TrimSuffix: "set (TrimSuffix s p) \<subseteq> set s"
  by (auto simp: TrimSuffix_def dest: in_set_takeD)

lemma HasPrefix_Nil [simp]: "HasPrefix [] p \<longleftrightarrow> p = []"
  by (auto simp: HasPrefix_def)

lemma Contains_single [simp]: "Contains s [c] \<longleftrightarrow> c \<in> set s"
  by (induction s) (auto simp: HasPrefix_def)

subsection \<open>Splitting and joining\<close>

text \<open>\<open>strings.Split(s, sep)\<close> for a one-byte separator.\<close>

fun Split :: "string \<Rightarrow> char \<Rightarrow> string list" where
  "Split [] c = [[]]"
| "Split (x # s) c =
     (if x = c then [] # Split s c
      else case Split s c of [] \<Rightarrow> [[x]] | f # fs \<Rightarrow> (x # f) # fs)"

text \<open>\<open>strings.SplitN(s, sep, 2)\<close>: at most two parts, cut at the first separator.\<close>

definition SplitN2 :: "string \<Rightarrow> char \<Rightarrow> string list" where
  "SplitN2 s c = (if c \<in> set s then [takeWhile (\<lambda>x. x \<noteq> c) s, tl (dropWhile (\<lambda>x. x \<noteq> c) s)] else [s])"

fun Join :: "string list \<Rightarrow> string \<Rightarrow> string" where
  "Join [] sep = []"
| "Join [x] sep = x"
| "Join (x # y # ys) sep = x @ sep @ Join (y # ys) sep"

lemma Split_ne [simp]: "Split s c \<noteq> []"
  by (induction s) (auto split: list.splits)

lemma Split_none: "c \<notin> set s \<Longrightarrow> Split s c = [s]"
  by (induction s) auto

lemma Split_append: "c \<notin> set x \<Longrightarrow> Split (x @ c # s) c = x # Split s c"
  by (induction x) auto

lemma Split_Join: "xs \<noteq> [] \<Longrightarrow> \<forall>x \<in> set xs. c \<notin> set x \<Longrightarrow> Split (Join xs [c]) c = xs"
  by (induction xs "[c]" rule: Join.induct) (auto simp: Split_none Split_append)

lemma Join_Split: "Join (Split s c) [c] = s"
proof (induction s)
  case (Cons x s)
  obtain f fs where "Split s c = f # fs" using Split_ne [of s c] by (cases "Split s c") auto
  with Cons show ?case by (cases fs) auto
qed simp

lemma Split_no_sep: "f \<in> set (Split s c) \<Longrightarrow> c \<notin> set f"
proof (induction s arbitrary: f)
  case (Cons x s)
  obtain g gs where "Split s c = g # gs" using Split_ne [of s c] by (cases "Split s c") auto
  with Cons show ?case by (auto split: if_splits)
qed simp

lemma Join_empty_sep: "Join xs [] = concat xs"
  by (induction xs "[] :: string" rule: Join.induct) auto

subsection \<open>Case\<close>

text \<open>
  \<open>strings.ToLower\<close> on ASCII text, which is all it is applied to here: the DNS library
  escapes other bytes of a name, and base32 text is ASCII.
\<close>

definition lower_byte :: "char \<Rightarrow> char" where
  "lower_byte c = (let k = (of_char c :: nat) in if 65 \<le> k \<and> k \<le> 90 then char_of (k + 32) else c)"

definition ToLower :: "string \<Rightarrow> string" where
  "ToLower s = map lower_byte s"

lemma lower_byte_idem: "lower_byte (lower_byte c) = lower_byte c"
  by (auto simp: lower_byte_def Let_def take_bit_eq_mod)

lemma ToLower_idem [simp]: "ToLower (ToLower s) = ToLower s"
  by (simp add: ToLower_def o_def lower_byte_idem)

lemma length_ToLower [simp]: "length (ToLower s) = length s"
  by (simp add: ToLower_def)

subsection \<open>White space\<close>

text \<open>
  The UTF-8 encodings of the runes of \<open>unicode.IsSpace\<close>. Their first bytes never occur
  inside another rune, so matching encodings byte by byte agrees with decoding runes.
\<close>

definition go_spaces :: "string list" where
  "go_spaces =
     [[CHR 0x09], [CHR 0x0A], [CHR 0x0B], [CHR 0x0C], [CHR 0x0D], [CHR 0x20],
      [CHR 0xC2, CHR 0x85], [CHR 0xC2, CHR 0xA0], [CHR 0xE1, CHR 0x9A, CHR 0x80],
      [CHR 0xE2, CHR 0x80, CHR 0x80], [CHR 0xE2, CHR 0x80, CHR 0x81],
      [CHR 0xE2, CHR 0x80, CHR 0x82], [CHR 0xE2, CHR 0x80, CHR 0x83],
      [CHR 0xE2, CHR 0x80, CHR 0x84], [CHR 0xE2, CHR 0x80, CHR 0x85],
      [CHR 0xE2, CHR 0x80, CHR 0x86], [CHR 0xE2, CHR 0x80, CHR 0x87],
      [CHR 0xE2, CHR 0x80, CHR 0x88], [CHR 0xE2, CHR 0x80, CHR 0x89],
      [CHR 0xE2, CHR 0x80, CHR 0x8A], [CHR 0xE2, CHR 0x80, CHR 0xA8],
      [CHR 0xE2, CHR 0x80, CHR 0xA9], [CHR 0xE2, CHR 0x80, CHR 0xAF],
      [CHR 0xE2, CHR 0x81, CHR 0x9F], [CHR 0xE3, CHR 0x80, CHR 0x80]]"

definition match_enc :: "string list \<Rightarrow> string \<Rightarrow> string option" where
  "match_enc encs s = find (\<lambda>e. e \<noteq> [] \<and> HasPrefix s e) encs"

lemma match_enc_Some:
  assumes "match_enc encs s = Some e"
  shows "e \<in> set encs" and "e \<noteq> []" and "s = e @ drop (length e) s"
proof -
  from assms have *: "e \<in> set encs \<and> e \<noteq> [] \<and> HasPrefix s e"
    by (auto simp: match_enc_def find_Some_iff)
  then show "e \<in> set encs" and "e \<noteq> []" by auto
  from * show "s = e @ drop (length e) s"
    by (metis HasPrefix_def append_take_drop_id)
qed

lemma match_enc_Nil [simp]: "match_enc encs [] = None"
  by (auto simp: match_enc_def find_None_iff)

lemma match_enc_shorter: "match_enc encs s = Some e \<Longrightarrow> length (drop (length e) s) < length s"
  using match_enc_Some [of encs s e] by (cases s) auto

function trim_by :: "string list \<Rightarrow> string \<Rightarrow> string" where
  "trim_by encs s =
     (case match_enc encs s of None \<Rightarrow> s | Some e \<Rightarrow> trim_by encs (drop (length e) s))"
  by pat_completeness auto
termination
  by (relation "measure (length \<circ> snd)") (auto dest: match_enc_shorter)

declare trim_by.simps [simp del]

definition TrimSpace :: "string \<Rightarrow> string" where
  "TrimSpace s = rev (trim_by (map rev go_spaces) (rev (trim_by go_spaces s)))"

function fields_from :: "string \<Rightarrow> string \<Rightarrow> string list" where
  "fields_from cur s =
     (case match_enc go_spaces s of
        Some e \<Rightarrow> (if cur = [] then [] else [rev cur]) @ fields_from [] (drop (length e) s)
      | None \<Rightarrow> (case s of [] \<Rightarrow> (if cur = [] then [] else [rev cur])
                 | c # cs \<Rightarrow> fields_from (c # cur) cs))"
  by pat_completeness auto
termination
  by (relation "measure (length \<circ> snd)") (auto dest: match_enc_shorter)

declare fields_from.simps [simp del]

definition Fields :: "string \<Rightarrow> string list" where
  "Fields s = fields_from [] s"

text \<open>A byte that starts no space encoding is never dropped.\<close>

definition space_start :: "char \<Rightarrow> bool" where
  "space_start c \<longleftrightarrow> c \<in> hd ` set go_spaces"

lemma match_enc_not_start:
  assumes "s \<noteq> [] \<Longrightarrow> \<not> space_start (hd s)"
  shows "match_enc go_spaces s = None"
proof (rule ccontr)
  assume "match_enc go_spaces s \<noteq> None"
  then obtain e where e: "match_enc go_spaces s = Some e" by auto
  from match_enc_Some [OF e] have "s = e @ drop (length e) s" "e \<noteq> []" "e \<in> set go_spaces" by auto
  then have "s \<noteq> []" "hd s = hd e" by (metis append_is_Nil_conv, metis hd_append2)
  with \<open>e \<in> set go_spaces\<close> assms show False by (auto simp: space_start_def)
qed

lemma fields_from_no_space:
  "\<forall>c \<in> set s. \<not> space_start c \<Longrightarrow> concat (fields_from cur s) = rev cur @ s"
proof (induction s arbitrary: cur)
  case Nil
  then show ?case by (subst fields_from.simps) simp
next
  case (Cons c s)
  have "match_enc go_spaces (c # s) = None" using Cons.prems by (intro match_enc_not_start) simp
  then have "fields_from cur (c # s) = fields_from (c # cur) s" by (subst fields_from.simps) simp
  with Cons show ?case by simp
qed

lemma Join_Fields_id: "\<forall>c \<in> set s. \<not> space_start c \<Longrightarrow> Join (Fields s) [] = s"
  by (simp add: Join_empty_sep Fields_def fields_from_no_space)

subsection \<open>Decimal numbers\<close>

definition digit :: "nat \<Rightarrow> char" where
  "digit d = char_of (48 + d)"

definition digit_val :: "char \<Rightarrow> nat option" where
  "digit_val c = (let k = of_char c in if 48 \<le> k \<and> k \<le> 57 then Some (k - 48) else None)"

fun nat_itoa :: "nat \<Rightarrow> string" where
  "nat_itoa n = (if n < 10 then [digit n] else nat_itoa (n div 10) @ [digit (n mod 10)])"

declare nat_itoa.simps [simp del]

definition Itoa :: "int \<Rightarrow> string" where
  "Itoa i = (if i < 0 then CHR ''-'' # nat_itoa (nat (- i)) else nat_itoa (nat i))"

fun digits_val :: "nat \<Rightarrow> string \<Rightarrow> nat option" where
  "digits_val acc [] = Some acc"
| "digits_val acc (c # cs) =
     (case digit_val c of None \<Rightarrow> None | Some d \<Rightarrow> digits_val (10 * acc + d) cs)"

text \<open>\<open>strconv.Atoi\<close>: \<open>None\<close> is the error return (no digits, a stray byte, out of range).\<close>

definition Atoi :: "string \<Rightarrow> int option" where
  "Atoi s =
     (let (neg, ds) = (case s of [] \<Rightarrow> (False, [])
                       | c # cs \<Rightarrow> if c = CHR ''-'' then (True, cs)
                                  else if c = CHR ''+'' then (False, cs) else (False, s))
      in if ds = [] then None
         else case digits_val 0 ds of
                None \<Rightarrow> None
              | Some n \<Rightarrow> (let v = (if neg then - int n else int n)
                           in if - (2 ^ 63) \<le> v \<and> v < 2 ^ 63 then Some v else None))"

lemma digit_val_digit [simp]: "d < 10 \<Longrightarrow> digit_val (digit d) = Some d"
  by (simp add: digit_def digit_val_def)

lemma digit_not_sign: "d < 10 \<Longrightarrow> digit d \<noteq> CHR ''-'' \<and> digit d \<noteq> CHR ''+''"
  by (auto simp: digit_def take_bit_eq_mod dest!: arg_cong [where f = "of_char :: char \<Rightarrow> nat"])

lemma digits_val_append:
  "digits_val acc (s @ t) = (case digits_val acc s of None \<Rightarrow> None | Some v \<Rightarrow> digits_val v t)"
  by (induction acc s rule: digits_val.induct) (auto split: option.splits)

lemma digits_val_nat_itoa: "digits_val 0 (nat_itoa n) = Some n"
proof (induction n rule: nat_itoa.induct)
  case (1 n)
  then show ?case by (subst nat_itoa.simps) (auto simp: digits_val_append)
qed

lemma nat_itoa_ne: "nat_itoa n \<noteq> []"
  by (subst nat_itoa.simps) simp

lemma nat_itoa_hd: "hd (nat_itoa n) \<noteq> CHR ''-'' \<and> hd (nat_itoa n) \<noteq> CHR ''+''"
proof (induction n rule: nat_itoa.induct)
  case (1 n)
  then show ?case
    by (subst (1 2) nat_itoa.simps) (auto simp: digit_not_sign nat_itoa_ne hd_append)
qed

lemma Atoi_Itoa:
  assumes "- (2 ^ 63) \<le> i" and "i < 2 ^ 63"
  shows "Atoi (Itoa i) = Some i"
proof -
  obtain c cs where s: "nat_itoa (nat i) = c # cs" using nat_itoa_ne by (cases "nat_itoa (nat i)") auto
  with nat_itoa_hd [of "nat i"] have "c \<noteq> CHR ''-''" "c \<noteq> CHR ''+''" by auto
  then show ?thesis
    using assms digits_val_nat_itoa [of "nat i"] digits_val_nat_itoa [of "nat (- i)"]
    by (cases "i < 0") (simp_all add: Itoa_def Atoi_def s nat_itoa_ne)
qed

subsection \<open>Host and port\<close>

definition last_colon :: "string \<Rightarrow> nat option" where
  "last_colon s = (if CHR '':'' \<in> set s
                   then Some (length s - 1 - length (takeWhile (\<lambda>c. c \<noteq> CHR '':'') (rev s)))
                   else None)"

definition first_index :: "char \<Rightarrow> string \<Rightarrow> nat option" where
  "first_index x s = (if x \<in> set s then Some (length (takeWhile (\<lambda>c. c \<noteq> x) s)) else None)"

text \<open>\<open>net.SplitHostPort\<close>; \<open>None\<close> is the error return.\<close>

definition SplitHostPort :: "string \<Rightarrow> (string \<times> string) option" where
  "SplitHostPort s =
     (case last_colon s of None \<Rightarrow> None
      | Some i \<Rightarrow>
          (case (if hd s = CHR ''['' then
                   (case first_index (CHR '']'') s of None \<Rightarrow> None
                    | Some e \<Rightarrow> if e + 1 = i then Some (take (e - 1) (tl s), 1, e + 1) else None)
                 else if CHR '':'' \<in> set (take i s) then None
                 else Some (take i s, 0, 0)) of
             None \<Rightarrow> None
           | Some (host, j, k) \<Rightarrow>
               if CHR ''['' \<in> set (drop j s) \<or> CHR '']'' \<in> set (drop k s) then None
               else Some (host, drop (i + 1) s)))"

lemma last_colon_append:
  assumes "CHR '':'' \<notin> set p"
  shows "last_colon (h @ CHR '':'' # p) = Some (length h)"
proof -
  have "takeWhile (\<lambda>c. c \<noteq> CHR '':'') (rev p @ CHR '':'' # rev h) = rev p"
    using assms by (subst takeWhile_append2) auto
  then show ?thesis by (simp add: last_colon_def)
qed

lemma SplitHostPort_plain:
  assumes "CHR '':'' \<notin> set h" "CHR '':'' \<notin> set p"
    and "CHR ''['' \<notin> set h \<union> set p" "CHR '']'' \<notin> set h \<union> set p"
  shows "SplitHostPort (h @ CHR '':'' # p) = Some (h, p)"
proof -
  have "hd (h @ CHR '':'' # p) \<noteq> CHR ''[''" using assms(3) by (cases h) auto
  then show ?thesis
    using assms by (simp add: SplitHostPort_def last_colon_append)
qed

subsection \<open>Padding\<close>

text \<open>
  The width of a formatted text counts its UTF-8 characters: \<open>rune_len\<close> is the length of the first one; a byte that
  begins no complete character counts alone.
\<close>

definition cont_in :: "nat \<Rightarrow> nat \<Rightarrow> string \<Rightarrow> nat \<Rightarrow> bool" where
  "cont_in lo hi s i \<longleftrightarrow> i < length s \<and> lo \<le> of_char (s ! i) \<and> of_char (s ! i) \<le> hi"

definition rune_len :: "string \<Rightarrow> nat" where
  "rune_len s =
     (let k = of_char (hd s) :: nat; c = cont_in 0x80 0xBF s in
      if 0xC2 \<le> k \<and> k \<le> 0xDF \<and> c 1 then 2
      else if (k = 0xE0 \<and> cont_in 0xA0 0xBF s 1 \<or> k = 0xED \<and> cont_in 0x80 0x9F s 1 \<or>
               0xE1 \<le> k \<and> k \<le> 0xEF \<and> k \<noteq> 0xED \<and> c 1) \<and> c 2 then 3
      else if (k = 0xF0 \<and> cont_in 0x90 0xBF s 1 \<or> k = 0xF4 \<and> cont_in 0x80 0x8F s 1 \<or>
               0xF1 \<le> k \<and> k \<le> 0xF3 \<and> c 1) \<and> c 2 \<and> c 3 then 4
      else 1)"

lemma rune_len_pos: "0 < rune_len s"
  by (simp add: rune_len_def Let_def)

function RuneCount :: "string \<Rightarrow> nat" where
  "RuneCount s = (if s = [] then 0 else Suc (RuneCount (drop (rune_len s) s)))"
  by pat_completeness auto
termination
  by (relation "measure length") (simp_all add: rune_len_pos)

declare RuneCount.simps [simp del]

definition pad_left :: "nat \<Rightarrow> string \<Rightarrow> string" where
  "pad_left n s = replicate (n - RuneCount s) (CHR '' '') @ s"

definition pad_right :: "nat \<Rightarrow> string \<Rightarrow> string" where
  "pad_right n s = s @ replicate (n - RuneCount s) (CHR '' '')"

end
