(* ===== verification/Transport.thy ===== *)
theory Transport
  imports GoStrings
begin

text \<open>
  \<open>transport.go\<close>: one upstream exchange over UDP or DNS-over-HTTPS. The network is a
  parameter: a \<open>transport\<close> says how each system call of one exchange turns out.
\<close>

subsection \<open>Errors\<close>

text \<open>
  A Go \<open>error\<close> as far as the program looks at it: its text, and the answer of its
  \<open>Timeout()\<close> method if it has one.
\<close>

record goerr =
  err_msg :: string
  err_Timeout :: "bool option"

definition fmtErr :: "string \<Rightarrow> goerr" where
  "fmtErr s = \<lparr>err_msg = s, err_Timeout = None\<rparr>"

subsection \<open>The two exchanges\<close>

definition dnsBufferSize :: nat where
  "dnsBufferSize = 4096"

definition upstreamTimeout :: int where
  "upstreamTimeout = 5 * 10 ^ 9"

record transport =
  udp_dial :: "string \<Rightarrow> int \<Rightarrow> goerr option"
  udp_write :: "bytes \<Rightarrow> goerr option"
  udp_read :: "goerr + bytes"
  http_new_request :: "string \<Rightarrow> goerr option"
  http_do :: "string \<Rightarrow> bytes \<Rightarrow> int \<Rightarrow> goerr + (int \<times> (goerr + bytes))"

text \<open>
  A datagram longer than the read buffer is cut to the buffer by \<open>conn.Read\<close>.
\<close>

definition sendQueryUDP :: "transport \<Rightarrow> bytes \<Rightarrow> string \<Rightarrow> int \<Rightarrow> goerr + bytes" where
  "sendQueryUDP net data addr timeout =
     (case udp_dial net addr timeout of Some e \<Rightarrow> Inl e
      | None \<Rightarrow> (case udp_write net data of Some e \<Rightarrow> Inl e
                 | None \<Rightarrow> (case udp_read net of Inl e \<Rightarrow> Inl e
                            | Inr dgram \<Rightarrow> Inr (take dnsBufferSize dgram))))"

definition sendQueryDoH :: "transport \<Rightarrow> bytes \<Rightarrow> string \<Rightarrow> int \<Rightarrow> goerr + bytes" where
  "sendQueryDoH net data url timeout =
     (case http_new_request net url of Some e \<Rightarrow> Inl e
      | None \<Rightarrow> (case http_do net url data timeout of Inl e \<Rightarrow> Inl e
                 | Inr (status, body) \<Rightarrow>
                     if status \<noteq> 200 then Inl (fmtErr (''DoH HTTP '' @ Itoa status))
                     else body))"

lemma sendQueryUDP_bound:
  "sendQueryUDP net data addr timeout = Inr resp \<Longrightarrow> length resp \<le> dnsBufferSize"
  by (auto simp: sendQueryUDP_def split: option.splits sum.splits)

end
