(* ===== verification/Pool.thy ===== *)
theory Pool
  imports GoRuntime GoFloat Transport
begin

text \<open>
  \<open>pool.go\<close>: the resolver pool. The state of \<open>ResolverPool\<close> is the record \<open>pool\<close>; every
  method is a function from the pool to an outcome and the pool it leaves behind, and takes
  and releases \<open>p.mu\<close> where the method does. The pool after \<open>Blocked\<close> or \<open>Panic\<close> is the one
  the method had reached, so what a stuck method has already written stays visible.
\<close>

subsection \<open>State\<close>

record Resolver =
  Addr :: string
  URL :: string

definition Resolver_String :: "Resolver \<Rightarrow> string" where
  "Resolver_String r = (if URL r \<noteq> '''' then URL r else Addr r)"

record resolverStats =
  st_sent :: uint64
  st_ok :: uint64
  st_fail :: uint64
  st_latency :: int

definition new_stats :: resolverStats where
  "new_stats = \<lparr>st_sent = 0, st_ok = 0, st_fail = 0, st_latency = 0\<rparr>"

record pool =
  p_resolvers :: "Resolver list"
  p_mode :: string
  p_doh :: bool
  p_mu :: rwmutex
  p_healthy :: "Resolver \<rightharpoonup> bool"
  p_healthyCache :: "Resolver list"
  p_stats :: "Resolver \<rightharpoonup> resolverStats"
  p_failStreak :: "Resolver \<rightharpoonup> int"
  p_rrIndex :: uint64
  p_onResolverDown :: bool
  p_healthDomain :: string

text \<open>
  Health and fail streak read the maps with Go's zero values; \<open>p_onResolverDown\<close> records
  only whether a callback is registered.
\<close>

abbreviation is_healthy :: "pool \<Rightarrow> Resolver \<Rightarrow> bool" where
  "is_healthy p \<equiv> map_get False (p_healthy p)"

abbreviation streak :: "pool \<Rightarrow> Resolver \<Rightarrow> int" where
  "streak p \<equiv> map_get 0 (p_failStreak p)"

subsection \<open>Construction\<close>

fun init_resolvers :: "Resolver list \<Rightarrow> pool \<Rightarrow> pool" where
  "init_resolvers [] p = p"
| "init_resolvers (r # rs) p =
     init_resolvers rs (p\<lparr>p_healthy := (p_healthy p)(r \<mapsto> True),
                          p_stats := (p_stats p)(r \<mapsto> new_stats)\<rparr>)"

definition NewResolverPool :: "Resolver list \<Rightarrow> string \<Rightarrow> bool \<Rightarrow> pool" where
  "NewResolverPool resolvers mode doh =
     init_resolvers resolvers
       \<lparr>p_resolvers = resolvers, p_mode = mode, p_doh = doh, p_mu = Readers 0,
        p_healthy = Map.empty, p_healthyCache = resolvers, p_stats = Map.empty,
        p_failStreak = Map.empty, p_rrIndex = 0, p_onResolverDown = False,
        p_healthDomain = ''google.com''\<rparr>"

subsection \<open>Locking\<close>

text \<open>
  \<open>with_Lock body\<close> is \<open>p.mu.Lock(); body; p.mu.Unlock()\<close>. A body that blocks keeps the
  lock, and so does one that panics (the process dies of the panic).
\<close>

definition with_Lock :: "(pool \<Rightarrow> 'a outcome \<times> pool) \<Rightarrow> pool \<Rightarrow> 'a outcome \<times> pool" where
  "with_Lock body p =
     (case rw_Lock (p_mu p) of None \<Rightarrow> (Blocked, p)
      | Some m \<Rightarrow>
          (case body (p\<lparr>p_mu := m\<rparr>) of
             (Done a, p') \<Rightarrow> (case rw_Unlock (p_mu p') of
                                None \<Rightarrow> (Panic, p') | Some m' \<Rightarrow> (Done a, p'\<lparr>p_mu := m'\<rparr>))
           | (res, p') \<Rightarrow> (res, p')))"

definition with_RLock :: "(pool \<Rightarrow> 'a outcome \<times> pool) \<Rightarrow> pool \<Rightarrow> 'a outcome \<times> pool" where
  "with_RLock body p =
     (case rw_RLock (p_mu p) of None \<Rightarrow> (Blocked, p)
      | Some m \<Rightarrow>
          (case body (p\<lparr>p_mu := m\<rparr>) of
             (Done a, p') \<Rightarrow> (case rw_RUnlock (p_mu p') of
                                None \<Rightarrow> (Panic, p') | Some m' \<Rightarrow> (Done a, p'\<lparr>p_mu := m'\<rparr>))
           | (res, p') \<Rightarrow> (res, p')))"

subsection \<open>The cache of healthy resolvers\<close>

definition rebuildHealthyCache :: "pool \<Rightarrow> pool" where
  "rebuildHealthyCache p =
     (let cache = filter (is_healthy p) (p_resolvers p)
      in p\<lparr>p_healthyCache := (if length cache = 0 then p_resolvers p else cache)\<rparr>)"

definition SetHealthDomain :: "string \<Rightarrow> pool \<Rightarrow> unit outcome \<times> pool" where
  "SetHealthDomain domain =
     with_Lock (\<lambda>p. (Done (), if domain \<noteq> '''' then p\<lparr>p_healthDomain := domain\<rparr> else p))"

definition SetOnResolverDown :: "bool \<Rightarrow> pool \<Rightarrow> unit outcome \<times> pool" where
  "SetOnResolverDown fn = with_Lock (\<lambda>p. (Done (), p\<lparr>p_onResolverDown := fn\<rparr>))"

definition HealthyCount :: "pool \<Rightarrow> nat outcome \<times> pool" where
  "HealthyCount = with_RLock (\<lambda>p. (Done (length (p_healthyCache p)), p))"

subsection \<open>Selection\<close>

definition success_rate :: "resolverStats \<Rightarrow> rat" where
  "success_rate s =
     (if 0 < st_sent s then fl (float_of_uint64 (st_ok s) / float_of_uint64 (st_sent s))
      else 1)"

definition latency_ms :: "resolverStats \<Rightarrow> rat" where
  "latency_ms s = (let ms = fl (float_of_int64 (st_latency s) / 10 ^ 6) in if ms < 1 then 1 else ms)"

definition score :: "resolverStats \<Rightarrow> rat" where
  "score s = fl (success_rate s / fl (latency_ms s / 100))"

text \<open>
  The loop over the candidates: \<open>n\<close> draws are left, \<open>i\<close> counts the random numbers used.
\<close>

fun pick_best :: "(nat \<Rightarrow> nat) \<Rightarrow> pool \<Rightarrow> Resolver list \<Rightarrow> nat \<Rightarrow> nat \<Rightarrow> Resolver \<Rightarrow> rat
    \<Rightarrow> (Resolver \<times> rat) outcome" where
  "pick_best draws p healthy i 0 best bestScore = Done (best, bestScore)"
| "pick_best draws p healthy i (Suc n) best bestScore =
     (case intn (draws i) (length healthy) of
        Done k \<Rightarrow>
          (let r = healthy ! k in
           case rw_RLock (p_mu p) of None \<Rightarrow> Blocked
           | Some _ \<Rightarrow>
               (case p_stats p r of None \<Rightarrow> Panic
                | Some s \<Rightarrow>
                    (let sc = score s in
                     if bestScore < sc then pick_best draws p healthy (Suc i) n r sc
                     else pick_best draws p healthy (Suc i) n best bestScore)))
      | Blocked \<Rightarrow> Blocked
      | Panic \<Rightarrow> Panic)"

definition GetNext :: "(nat \<Rightarrow> nat) \<Rightarrow> pool \<Rightarrow> Resolver outcome \<times> pool" where
  "GetNext draws p =
     (case rw_RLock (p_mu p) of None \<Rightarrow> (Blocked, p)
      | Some _ \<Rightarrow>
          (let healthy = p_healthyCache p in
           if length healthy = 0 then
             (case intn (draws 0) (length (p_resolvers p)) of
                Done k \<Rightarrow> (Done (p_resolvers p ! k), p)
              | Blocked \<Rightarrow> (Blocked, p) | Panic \<Rightarrow> (Panic, p))
           else
             (let candidates = (if length healthy < 3 then length healthy else 3) in
              case pick_best draws p healthy 0 candidates \<lparr>Addr = '''', URL = ''''\<rparr> (- 1) of
                Done (best, bestScore) \<Rightarrow>
                  if - 1 < bestScore then (Done best, p)
                  else if p_mode p = ''random'' then
                    (case intn (draws candidates) (length healthy) of
                       Done k \<Rightarrow> (Done (healthy ! k), p)
                     | Blocked \<Rightarrow> (Blocked, p) | Panic \<Rightarrow> (Panic, p))
                  else
                    (let idx = p_rrIndex p + 1 - 1 in
                     (Done (healthy ! unat (idx mod of_nat (length healthy))),
                      p\<lparr>p_rrIndex := p_rrIndex p + 1\<rparr>))
              | Blocked \<Rightarrow> (Blocked, p) | Panic \<Rightarrow> (Panic, p))))"

subsection \<open>Bookkeeping\<close>

text \<open>
  \<open>MarkSent\<close> looks the statistics up under the read lock and adds to them after it has given the lock back, so that the
  addition waits for nobody. The two parts are steps of their own in the interleaved model. A missing entry is a nil
  pointer, on which the addition panics whatever happens in between; entries are never removed.
\<close>

definition find_stats :: "Resolver \<Rightarrow> pool \<Rightarrow> unit outcome \<times> pool" where
  "find_stats r p =
     (case rw_RLock (p_mu p) of None \<Rightarrow> (Blocked, p)
      | Some _ \<Rightarrow> (case p_stats p r of None \<Rightarrow> (Panic, p) | Some _ \<Rightarrow> (Done (), p)))"

definition add_sent :: "Resolver \<Rightarrow> pool \<Rightarrow> unit outcome \<times> pool" where
  "add_sent r p =
     (case p_stats p r of None \<Rightarrow> (Panic, p)
      | Some s \<Rightarrow> (Done (), p\<lparr>p_stats := (p_stats p)(r \<mapsto> s\<lparr>st_sent := st_sent s + 1\<rparr>)\<rparr>))"

definition MarkSent :: "Resolver \<Rightarrow> pool \<Rightarrow> unit outcome \<times> pool" where
  "MarkSent r p = and_then (find_stats r p) (\<lambda>_. add_sent r)"

lemma MarkSent_eq:
  "MarkSent r p =
     (case rw_RLock (p_mu p) of None \<Rightarrow> (Blocked, p)
      | Some _ \<Rightarrow>
          (case p_stats p r of None \<Rightarrow> (Panic, p)
           | Some s \<Rightarrow> (Done (), p\<lparr>p_stats := (p_stats p)(r \<mapsto> s\<lparr>st_sent := st_sent s + 1\<rparr>)\<rparr>)))"
  by (simp add: MarkSent_def find_stats_def add_sent_def split: option.split)

text \<open>The moving average of the latency, on 64-bit integers as the code computes it.\<close>

definition ewma :: "int \<Rightarrow> int \<Rightarrow> int" where
  "ewma oldLat newLat =
     (if oldLat = 0 then newLat
      else go_quot (i64 (i64 (newLat * 2) + i64 (oldLat * 8))) 10)"

definition MarkSuccessWithLatency :: "Resolver \<Rightarrow> int \<Rightarrow> pool \<Rightarrow> unit outcome \<times> pool" where
  "MarkSuccessWithLatency r latency =
     with_Lock (\<lambda>p.
       case p_stats p r of None \<Rightarrow> (Done (), p)
       | Some s \<Rightarrow>
           (let s' = s\<lparr>st_ok := st_ok s + 1, st_latency := ewma (st_latency s) latency\<rparr>;
                p1 = p\<lparr>p_stats := (p_stats p)(r \<mapsto> s'),
                       p_failStreak := (p_failStreak p)(r \<mapsto> 0)\<rparr>
            in (Done (), if \<not> is_healthy p1 r
                         then rebuildHealthyCache (p1\<lparr>p_healthy := (p_healthy p1)(r \<mapsto> True)\<rparr>)
                         else p1)))"

definition MarkSuccess :: "Resolver \<Rightarrow> pool \<Rightarrow> unit outcome \<times> pool" where
  "MarkSuccess r = MarkSuccessWithLatency r (100 * 10 ^ 6)"

text \<open>\<open>MarkFailure\<close> returns whether the resolver-down callback was started.\<close>

definition MarkFailure :: "Resolver \<Rightarrow> pool \<Rightarrow> bool outcome \<times> pool" where
  "MarkFailure r =
     with_Lock (\<lambda>p.
       case p_stats p r of None \<Rightarrow> (Panic, p)
       | Some s \<Rightarrow>
           (let n = i64 (streak p r + 1);
                p1 = p\<lparr>p_stats := (p_stats p)(r \<mapsto> s\<lparr>st_fail := st_fail s + 1\<rparr>),
                       p_failStreak := (p_failStreak p)(r \<mapsto> n)\<rparr>
            in if 10 \<le> n \<and> is_healthy p1 r
               then (Done (p_onResolverDown p1),
                     rebuildHealthyCache (p1\<lparr>p_healthy := (p_healthy p1)(r \<mapsto> False)\<rparr>))
               else (Done False, p1)))"

definition SendQuery :: "transport \<Rightarrow> bytes \<Rightarrow> Resolver \<Rightarrow> pool \<Rightarrow> goerr + bytes" where
  "SendQuery net data r p =
     (if p_doh p then sendQueryDoH net data (URL r) upstreamTimeout
      else sendQueryUDP net data (Addr r) upstreamTimeout)"

subsection \<open>Probing\<close>

text \<open>
  A probe starts one goroutine per resolver; goroutine \<open>i\<close> meets the network \<open>nets i\<close>. The
  results come back over a channel in some order, given as the list \<open>order\<close> of the
  goroutines' indices. \<open>mkquery\<close> stands for the DNS library's \<open>SetQuestion(Fqdn(d), TypeA)\<close>
  followed by \<open>Pack\<close>; \<open>None\<close> is its error.
\<close>

definition is_ok :: "goerr + bytes \<Rightarrow> bool" where
  "is_ok res = (case res of Inl _ \<Rightarrow> False | Inr _ \<Rightarrow> True)"

definition probe_result :: "(nat \<Rightarrow> transport) \<Rightarrow> bytes \<Rightarrow> pool \<Rightarrow> nat \<Rightarrow> Resolver \<times> bool" where
  "probe_result nets query p i =
     (let r = p_resolvers p ! i in (r, is_ok (SendQuery (nets i) query r p)))"

fun record_probes :: "(Resolver \<times> bool) list \<Rightarrow> pool \<Rightarrow> pool" where
  "record_probes [] p = p"
| "record_probes ((r, alive) # res) p =
     (let p1 = p\<lparr>p_healthy := (p_healthy p)(r \<mapsto> alive)\<rparr>;
          p2 = (if alive then p1\<lparr>p_failStreak := (p_failStreak p1)(r \<mapsto> 0)\<rparr> else p1)
      in record_probes res p2)"

definition HealthCheck :: "(string \<Rightarrow> bytes option) \<Rightarrow> (nat \<Rightarrow> transport) \<Rightarrow> nat list \<Rightarrow> pool
    \<Rightarrow> unit outcome \<times> pool" where
  "HealthCheck mkquery nets order p =
     (case rw_RLock (p_mu p) of None \<Rightarrow> (Blocked, p)
      | Some _ \<Rightarrow>
          (case mkquery (p_healthDomain p) of None \<Rightarrow> (Done (), p)
           | Some query \<Rightarrow>
               (let res = map (probe_result nets query p) order
                in with_Lock (\<lambda>p. (Done (), rebuildHealthyCache (record_probes res p))) p)))"

definition ProbeResolvers :: "(string \<Rightarrow> bytes option) \<Rightarrow> (nat \<Rightarrow> transport) \<Rightarrow> nat list \<Rightarrow> pool
    \<Rightarrow> Resolver list" where
  "ProbeResolvers mkquery nets order p =
     (let query = (case mkquery ''google.com'' of None \<Rightarrow> [] | Some q \<Rightarrow> q);
          working = map fst (filter snd (map (probe_result nets query p) order))
      in if length working = 0 then p_resolvers p else working)"

subsection \<open>Replacing the resolvers\<close>

text \<open>
  \<open>ExportVerified\<close> returns the text it writes to the file; a failed write is only logged.
\<close>

definition ExportVerified :: "pool \<Rightarrow> string outcome \<times> pool" where
  "ExportVerified =
     with_RLock (\<lambda>p. (Done (concat (map (\<lambda>r. Resolver_String r @ [CHR 0x0A])
                               (filter (is_healthy p) (p_resolvers p)))), p))"

fun add_resolvers :: "Resolver list \<Rightarrow> pool \<Rightarrow> pool" where
  "add_resolvers [] p = p"
| "add_resolvers (r # rs) p =
     (let p1 = (if p_stats p r = None
                then p\<lparr>p_stats := (p_stats p)(r \<mapsto> new_stats),
                       p_failStreak := (p_failStreak p)(r \<mapsto> 0)\<rparr>
                else p);
          p2 = (if p_healthy p1 r = None then p1\<lparr>p_healthy := (p_healthy p1)(r \<mapsto> True)\<rparr> else p1)
      in add_resolvers rs p2)"

definition UpdateResolvers :: "Resolver list \<Rightarrow> pool \<Rightarrow> string outcome \<times> pool" where
  "UpdateResolvers ordered =
     with_Lock (\<lambda>p. ExportVerified (rebuildHealthyCache
                       (add_resolvers ordered (p\<lparr>p_resolvers := ordered\<rparr>))))"

subsection \<open>Statistics\<close>

text \<open>One line of \<open>StatsString\<close> per resolver; a resolver without statistics is a nil dereference.\<close>

definition stats_line :: "pool \<Rightarrow> Resolver \<Rightarrow> resolverStats \<Rightarrow> string" where
  "stats_line p r s =
     (let status = (if \<not> is_healthy p r then ''DOWN'' else ''UP'')
      in ''  '' @ pad_left 40 (Resolver_String r) @ '' ['' @ pad_left 4 status @ ''] sent='' @
         pad_right 6 (Itoa (uint (st_sent s))) @ '' ok='' @ pad_right 6 (Itoa (uint (st_ok s))) @
         '' fail='' @ Itoa (uint (st_fail s)) @ '' lat='' @ Itoa (go_quot (st_latency s) (10 ^ 6)) @
         ''ms'' @ [CHR 0x0A])"

fun stats_lines :: "pool \<Rightarrow> Resolver list \<Rightarrow> string \<Rightarrow> string outcome" where
  "stats_lines p [] result = Done result"
| "stats_lines p (r # rs) result =
     (case p_stats p r of None \<Rightarrow> Panic | Some s \<Rightarrow> stats_lines p rs (result @ stats_line p r s))"

definition StatsString :: "pool \<Rightarrow> string outcome \<times> pool" where
  "StatsString = with_RLock (\<lambda>p. (stats_lines p (p_resolvers p) '''', p))"

end
