(* ===== verification/PoolHealth.thy ===== *)
theory PoolHealth
  imports Pool
begin

text \<open>
  The correctness of the resolver pool: its invariant and its preservation by every
  operation, what selection returns, the health bookkeeping, the latency average, and the
  self-deadlock of \<open>UpdateResolvers\<close>.
\<close>

subsection \<open>Locking lemmas\<close>

lemma with_Lock_free:
  assumes "p_mu p = Readers 0" and "body (p\<lparr>p_mu := Writer\<rparr>) = (Done a, p')" and "p_mu p' = Writer"
  shows "with_Lock body p = (Done a, p'\<lparr>p_mu := Readers 0\<rparr>)"
  using assms by (simp add: with_Lock_def)

lemma with_Lock_busy [simp]: "p_mu p \<noteq> Readers 0 \<Longrightarrow> with_Lock body p = (Blocked, p)"
  by (cases "p_mu p") (simp_all add: with_Lock_def)

lemma with_RLock_busy [simp]: "p_mu p = Writer \<Longrightarrow> with_RLock body p = (Blocked, p)"
  by (simp add: with_RLock_def)

lemma pool_mu_id [simp]: "p_mu p = m \<Longrightarrow> p\<lparr>p_mu := m\<rparr> = p"
  by simp

lemma rebuild_simps [simp]:
  "p_resolvers (rebuildHealthyCache p) = p_resolvers p"
  "p_mu (rebuildHealthyCache p) = p_mu p"
  "p_healthy (rebuildHealthyCache p) = p_healthy p"
  "p_stats (rebuildHealthyCache p) = p_stats p"
  "p_failStreak (rebuildHealthyCache p) = p_failStreak p"
  "p_mode (rebuildHealthyCache p) = p_mode p"
  "p_doh (rebuildHealthyCache p) = p_doh p"
  "p_rrIndex (rebuildHealthyCache p) = p_rrIndex p"
  "p_healthDomain (rebuildHealthyCache p) = p_healthDomain p"
  "p_onResolverDown (rebuildHealthyCache p) = p_onResolverDown p"
  by (simp_all add: rebuildHealthyCache_def Let_def)

lemma rebuild_mu: "rebuildHealthyCache (p\<lparr>p_mu := m\<rparr>) = (rebuildHealthyCache p)\<lparr>p_mu := m\<rparr>"
  by (rule pool.equality; simp add: rebuildHealthyCache_def Let_def)

text \<open>The list the cache of healthy resolvers has to hold.\<close>

definition up_or_all :: "(Resolver \<rightharpoonup> bool) \<Rightarrow> Resolver list \<Rightarrow> Resolver list" where
  "up_or_all h rs = (if \<exists>r \<in> set rs. map_get False h r then filter (map_get False h) rs else rs)"

abbreviation healthy_view :: "pool \<Rightarrow> Resolver list" where
  "healthy_view p \<equiv> up_or_all (p_healthy p) (p_resolvers p)"

lemma rebuild_cache [simp]: "p_healthyCache (rebuildHealthyCache p) = healthy_view p"
  by (auto simp: rebuildHealthyCache_def up_or_all_def Let_def filter_empty_conv)

lemma rebuild_eq: "rebuildHealthyCache p = p\<lparr>p_healthyCache := healthy_view p\<rparr>"
  by (simp add: rebuildHealthyCache_def up_or_all_def Let_def filter_empty_conv)

lemma up_or_all_set: "set (up_or_all h rs) \<subseteq> set rs"
  by (auto simp: up_or_all_def)

lemma up_or_all_ne: "rs \<noteq> [] \<Longrightarrow> up_or_all h rs \<noteq> []"
  by (auto simp: up_or_all_def filter_empty_conv)

lemma up_or_all_up: "r \<in> set (up_or_all h rs) \<Longrightarrow> r' \<in> set rs \<Longrightarrow> map_get False h r' \<Longrightarrow> map_get False h r"
  by (auto simp: up_or_all_def split: if_splits)

lemma up_or_all_none: "\<forall>r \<in> set rs. \<not> map_get False h r \<Longrightarrow> up_or_all h rs = rs"
  by (auto simp: up_or_all_def)

subsection \<open>The invariant\<close>

definition pool_inv :: "pool \<Rightarrow> bool" where
  "pool_inv p \<longleftrightarrow>
     p_resolvers p \<noteq> [] \<and>
     set (p_resolvers p) \<subseteq> dom (p_stats p) \<and>
     dom (p_healthy p) = dom (p_stats p) \<and>
     p_healthyCache p = healthy_view p \<and>
     (\<forall>r. is_healthy p r \<longrightarrow> streak p r < 10)"

lemma pool_invD:
  assumes "pool_inv p"
  shows "p_resolvers p \<noteq> []" and "set (p_resolvers p) \<subseteq> dom (p_stats p)"
    and "dom (p_healthy p) = dom (p_stats p)" and "p_healthyCache p = healthy_view p"
    and "is_healthy p r \<Longrightarrow> streak p r < 10"
  using assms by (auto simp: pool_inv_def)

lemma pool_inv_dom: "pool_inv p \<Longrightarrow> p_healthy p r = None \<longleftrightarrow> p_stats p r = None"
  by (metis pool_invD(3) domIff)

lemma pool_inv_cache:
  assumes "pool_inv p"
  shows "p_healthyCache p \<noteq> []" and "set (p_healthyCache p) \<subseteq> set (p_resolvers p)"
  using assms up_or_all_ne up_or_all_set by (auto simp: pool_inv_def)

lemma pool_inv_mu [simp]: "pool_inv (p\<lparr>p_mu := m\<rparr>) = pool_inv p"
  by (simp add: pool_inv_def)

lemma pool_inv_domain [simp]: "pool_inv (p\<lparr>p_healthDomain := d\<rparr>) = pool_inv p"
  by (simp add: pool_inv_def)

lemma pool_inv_callback [simp]: "pool_inv (p\<lparr>p_onResolverDown := d\<rparr>) = pool_inv p"
  by (simp add: pool_inv_def)

text \<open>
  The common shape of the updates: known resolvers only get known statistics, and the cache
  is rebuilt whenever the health map changes.
\<close>

lemma init_resolvers_simps [simp]:
  "p_resolvers (init_resolvers rs p) = p_resolvers p"
  "p_healthyCache (init_resolvers rs p) = p_healthyCache p"
  "p_mu (init_resolvers rs p) = p_mu p"
  "p_failStreak (init_resolvers rs p) = p_failStreak p"
  by (induction rs arbitrary: p) auto

lemma init_resolvers_maps:
  "p_healthy (init_resolvers rs p) r = (if r \<in> set rs then Some True else p_healthy p r)"
  "p_stats (init_resolvers rs p) r = (if r \<in> set rs then Some new_stats else p_stats p r)"
  by (induction rs arbitrary: p) auto

lemma NewResolverPool_inv:
  assumes "resolvers \<noteq> []"
  shows "pool_inv (NewResolverPool resolvers mode doh)"
  using assms
  by (auto simp: pool_inv_def NewResolverPool_def init_resolvers_maps up_or_all_def
      map_get_True dom_def intro!: sym [OF filter_True])

lemma record_probes_simps [simp]:
  "p_resolvers (record_probes res p) = p_resolvers p"
  "p_mu (record_probes res p) = p_mu p"
  "p_stats (record_probes res p) = p_stats p"
  by (induction res p rule: record_probes.induct) (auto simp: Let_def)

lemma record_probes_dom:
  "dom (p_healthy (record_probes res p)) = dom (p_healthy p) \<union> fst ` set res"
  by (induction res p rule: record_probes.induct) (auto simp: Let_def)

lemma record_probes_Cons:
  "record_probes (x # res) p =
     record_probes res (p\<lparr>p_healthy := (p_healthy p)(fst x \<mapsto> snd x),
       p_failStreak := (if snd x then (p_failStreak p)(fst x \<mapsto> 0) else p_failStreak p)\<rparr>)"
  by (cases x) simp

lemma record_probes_mu: "record_probes res (p\<lparr>p_mu := m\<rparr>) = (record_probes res p)\<lparr>p_mu := m\<rparr>"
proof (induction res arbitrary: p)
  case (Cons x res)
  show ?case
    unfolding record_probes_Cons
    by (subst Cons.IH [symmetric], rule arg_cong [where f = "record_probes res"])
      (rule pool.equality; simp)
qed simp

lemma record_probes_streak:
  assumes "\<forall>r. is_healthy p r \<longrightarrow> streak p r < 10"
  shows "\<forall>r. is_healthy (record_probes res p) r \<longrightarrow> streak (record_probes res p) r < 10"
  using assms
proof (induction res arbitrary: p)
  case (Cons x res)
  show ?case
    unfolding record_probes_Cons
    by (rule Cons.IH, cases "snd x") (use Cons.prems in \<open>simp_all add: map_get_upd del: fun_upd_apply\<close>, auto)
qed simp

lemma rebuild_inv:
  assumes "p_resolvers p \<noteq> []" "set (p_resolvers p) \<subseteq> dom (p_stats p)"
    and "dom (p_healthy p) = dom (p_stats p)" "\<forall>r. is_healthy p r \<longrightarrow> streak p r < 10"
  shows "pool_inv (rebuildHealthyCache p)"
  using assms by (simp add: pool_inv_def rebuild_eq)

subsection \<open>The operations on an unlocked pool\<close>

text \<open>
  What each writer does to a pool whose mutex is free: the body between \<open>Lock\<close> and
  \<open>Unlock\<close> with the lock taken out.
\<close>

definition failed :: "Resolver \<Rightarrow> resolverStats \<Rightarrow> pool \<Rightarrow> pool" where
  "failed r s p = p\<lparr>p_stats := (p_stats p)(r \<mapsto> s\<lparr>st_fail := st_fail s + 1\<rparr>),
                    p_failStreak := (p_failStreak p)(r \<mapsto> i64 (streak p r + 1))\<rparr>"

definition succeeded :: "Resolver \<Rightarrow> resolverStats \<Rightarrow> int \<Rightarrow> pool \<Rightarrow> pool" where
  "succeeded r s lat p =
     p\<lparr>p_stats := (p_stats p)(r \<mapsto> s\<lparr>st_ok := st_ok s + 1, st_latency := ewma (st_latency s) lat\<rparr>),
       p_failStreak := (p_failStreak p)(r \<mapsto> 0)\<rparr>"

definition set_health :: "Resolver \<Rightarrow> bool \<Rightarrow> pool \<Rightarrow> pool" where
  "set_health r b p = rebuildHealthyCache (p\<lparr>p_healthy := (p_healthy p)(r \<mapsto> b)\<rparr>)"

lemma MarkFailure_free:
  assumes "p_mu p = Readers 0" and "p_stats p r = Some s"
  shows "MarkFailure r p =
     (if 10 \<le> i64 (streak p r + 1) \<and> is_healthy p r
      then (Done (p_onResolverDown p), set_health r False (failed r s p))
      else (Done False, failed r s p))"
  using assms
  by (simp add: MarkFailure_def with_Lock_def Let_def failed_def set_health_def rebuild_eq)

lemma MarkSuccess_free:
  assumes "p_mu p = Readers 0" and "p_stats p r = Some s"
  shows "MarkSuccessWithLatency r lat p =
     (Done (), if is_healthy p r then succeeded r s lat p
               else set_health r True (succeeded r s lat p))"
  using assms
  by (simp add: MarkSuccessWithLatency_def with_Lock_def Let_def succeeded_def set_health_def rebuild_eq)

lemma MarkSuccess_unknown:
  assumes "p_mu p = Readers 0" and "p_stats p r = None"
  shows "MarkSuccessWithLatency r lat p = (Done (), p)"
  using assms by (simp add: MarkSuccessWithLatency_def with_Lock_def)

lemma MarkFailure_unknown:
  assumes "p_mu p = Readers 0" and "p_stats p r = None"
  shows "MarkFailure r p = (Panic, p\<lparr>p_mu := Writer\<rparr>)"
  using assms by (simp add: MarkFailure_def with_Lock_def)

lemmas pool_frees = MarkFailure_free MarkSuccess_free MarkSuccess_unknown MarkFailure_unknown

lemma failed_simps [simp]:
  "p_doh (failed r s p) = p_doh p"
  "p_mu (failed r s p) = p_mu p" "p_resolvers (failed r s p) = p_resolvers p"
  "p_healthy (failed r s p) = p_healthy p" "p_healthyCache (failed r s p) = p_healthyCache p"
  "p_failStreak (failed r s p) = (p_failStreak p)(r \<mapsto> i64 (streak p r + 1))"
  "p_stats (failed r s p) = (p_stats p)(r \<mapsto> s\<lparr>st_fail := st_fail s + 1\<rparr>)"
  "p_onResolverDown (failed r s p) = p_onResolverDown p"
  by (simp_all add: failed_def)

lemma succeeded_simps [simp]:
  "p_doh (succeeded r s l p) = p_doh p"
  "p_mu (succeeded r s l p) = p_mu p" "p_resolvers (succeeded r s l p) = p_resolvers p"
  "p_healthy (succeeded r s l p) = p_healthy p" "p_healthyCache (succeeded r s l p) = p_healthyCache p"
  "p_failStreak (succeeded r s l p) = (p_failStreak p)(r \<mapsto> 0)"
  "p_stats (succeeded r s l p) =
     (p_stats p)(r \<mapsto> s\<lparr>st_ok := st_ok s + 1, st_latency := ewma (st_latency s) l\<rparr>)"
  "p_onResolverDown (succeeded r s l p) = p_onResolverDown p"
  by (simp_all add: succeeded_def)

lemma set_health_simps [simp]:
  "p_doh (set_health r b p) = p_doh p"
  "p_mu (set_health r b p) = p_mu p" "p_resolvers (set_health r b p) = p_resolvers p"
  "p_healthy (set_health r b p) = (p_healthy p)(r \<mapsto> b)"
  "p_healthyCache (set_health r b p) = healthy_view (set_health r b p)"
  "p_failStreak (set_health r b p) = p_failStreak p" "p_stats (set_health r b p) = p_stats p"
  "p_onResolverDown (set_health r b p) = p_onResolverDown p"
  by (simp_all add: set_health_def)

subsection \<open>Preservation of the invariant\<close>

lemma pool_inv_failed:
  assumes "pool_inv p" and "p_stats p r = Some s" and "is_healthy p r \<Longrightarrow> i64 (streak p r + 1) < 10"
  shows "pool_inv (failed r s p)"
  using assms by (auto simp: pool_inv_def)

lemma pool_inv_succeeded:
  assumes "pool_inv p" and "p_stats p r = Some s"
  shows "pool_inv (succeeded r s l p)"
  using assms by (auto simp: pool_inv_def)

lemma MarkFailure_inv [pool_inv_intros]:
  assumes "pool_inv p"
  shows "pool_inv (snd (MarkFailure r p))"
proof (cases "p_mu p = Readers 0")
  case free: True
  show ?thesis
  proof (cases "p_stats p r")
    case (Some s)
    then have "pool_inv (set_health r False (failed r s p))"
      using assms unfolding set_health_def
      by (intro rebuild_inv) (auto simp: pool_inv_def)
    with Some free assms show ?thesis
      by (auto simp: MarkFailure_free not_le intro: pool_inv_failed)
  qed (simp add: MarkFailure_unknown free assms)
qed (simp add: MarkFailure_def assms)

lemma MarkSuccess_inv [pool_inv_intros]:
  assumes "pool_inv p"
  shows "pool_inv (snd (MarkSuccessWithLatency r l p))"
proof (cases "p_mu p = Readers 0")
  case free: True
  show ?thesis
  proof (cases "p_stats p r")
    case (Some s)
    then have "pool_inv (set_health r True (succeeded r s l p))"
      using assms unfolding set_health_def
      by (intro rebuild_inv) (auto simp: pool_inv_def)
    with Some free assms show ?thesis
      by (simp add: MarkSuccess_free pool_inv_succeeded)
  qed (simp add: MarkSuccess_unknown free assms)
qed (simp add: MarkSuccessWithLatency_def assms)

lemma MarkSent_inv [pool_inv_intros]:
  "pool_inv p \<Longrightarrow> pool_inv (snd (MarkSent r p))"
  by (auto simp: MarkSent_eq pool_inv_def split: option.splits)

lemma HealthCheck_inv:
  assumes "pool_inv p" and "set order \<subseteq> {..<length (p_resolvers p)}"
  shows "pool_inv (snd (HealthCheck mkquery nets order p))"
proof (cases "p_mu p = Readers 0 \<and> mkquery (p_healthDomain p) \<noteq> None")
  case True
  then obtain q where free: "p_mu p = Readers 0" and q: "mkquery (p_healthDomain p) = Some q" by auto
  let ?res = "map (probe_result nets q p) order"
  have sub: "fst ` set ?res \<subseteq> dom (p_healthy p)"
    using assms by (auto simp: probe_result_def Let_def pool_inv_def dest!: subsetD)
  have "pool_inv (rebuildHealthyCache (record_probes ?res (p\<lparr>p_mu := Writer\<rparr>)))"
    using assms(1) sub record_probes_streak [of "p\<lparr>p_mu := Writer\<rparr>" ?res]
    by (intro rebuild_inv) (auto simp: pool_inv_def record_probes_dom)
  then show ?thesis using free q by (simp add: HealthCheck_def with_Lock_def)
next
  case False
  then show ?thesis
    using assms by (cases "p_mu p") (auto simp: HealthCheck_def split: option.splits)
qed

subsection \<open>Selection\<close>

lemma success_rate_nonneg: "0 \<le> success_rate s"
  by (simp add: success_rate_def fl_nonneg float_of_uint64_nonneg)

lemma latency_ms_ge1: "1 \<le> latency_ms s"
  by (simp add: latency_ms_def Let_def)

lemma score_nonneg: "0 \<le> score s"
proof -
  have "0 \<le> fl (latency_ms s / 100)" using latency_ms_ge1 [of s] by (intro fl_nonneg) simp
  then show ?thesis by (simp add: score_def fl_nonneg success_rate_nonneg)
qed

lemma pick_best_Suc:
  "pick_best draws p healthy i (Suc n) best bs =
     (if healthy = [] then Panic else if p_mu p = Writer then Blocked
      else case p_stats p (healthy ! (draws i mod length healthy)) of
          None \<Rightarrow> Panic
        | Some s \<Rightarrow>
            pick_best draws p healthy (Suc i) n
              (if bs < score s then healthy ! (draws i mod length healthy) else best)
              (if bs < score s then score s else bs))"
  by (cases "p_mu p") (simp_all add: Let_def split: option.split)

declare pick_best.simps(2) [simp del]

lemma pick_best_score:
  "pick_best draws p healthy i n best bs = Done (b, s) \<Longrightarrow> bs \<le> s \<and> (0 < n \<and> bs = - 1 \<longrightarrow> - 1 < s)"
proof (induction n arbitrary: i best bs)
  case (Suc n)
  from Suc.prems obtain st where
    st: "pick_best draws p healthy (Suc i) n
           (if bs < score st then healthy ! (draws i mod length healthy) else best)
           (if bs < score st then score st else bs) = Done (b, s)"
    by (auto simp: pick_best_Suc split: if_splits option.splits)
  from Suc.IH [OF this] score_nonneg [of st] show ?case by (auto split: if_splits)
qed simp

lemma pick_best_mode:
  "pick_best draws (p\<lparr>p_mode := m\<rparr>) healthy i n best bs = pick_best draws p healthy i n best bs"
  by (induction n arbitrary: i best bs) (simp_all add: pick_best_Suc split: option.splits)

text \<open>The draw \<open>i\<close> of a selection, and the score of a known resolver.\<close>

definition sample :: "(nat \<Rightarrow> nat) \<Rightarrow> pool \<Rightarrow> nat \<Rightarrow> Resolver" where
  "sample draws p i = p_healthyCache p ! (draws i mod length (p_healthyCache p))"

definition rscore :: "pool \<Rightarrow> Resolver \<Rightarrow> rat" where
  "rscore p r = score (map_get new_stats (p_stats p) r)"

text \<open>
  \<open>picked\<close>: after the draws \<open>i, \<dots>, i + n - 1\<close> the loop holds the first best-scoring draw,
  unless none beat the score it started from.
\<close>

definition picked :: "pool \<Rightarrow> (nat \<Rightarrow> Resolver) \<Rightarrow> nat \<Rightarrow> nat \<Rightarrow> Resolver \<Rightarrow> rat \<Rightarrow> Resolver \<Rightarrow> rat \<Rightarrow> bool" where
  "picked p smp i n best bs b s \<longleftrightarrow>
     (b = best \<and> s = bs \<and> (\<forall>l<n. rscore p (smp (i + l)) \<le> bs)) \<or>
     (\<exists>j<n. b = smp (i + j) \<and> s = rscore p b \<and> bs < s \<and>
        (\<forall>l<n. rscore p (smp (i + l)) \<le> s) \<and> (\<forall>l<j. rscore p (smp (i + l)) < s))"

lemma picked_Suc:
  assumes "picked p smp (Suc i) n (if bs < rscore p (smp i) then smp i else best)
             (if bs < rscore p (smp i) then rscore p (smp i) else bs) b s"
  shows "picked p smp i (Suc n) best bs b s"
proof (cases "bs < rscore p (smp i)")
  case True
  from assms True consider
    "b = smp i" "s = rscore p b" "\<forall>l<n. rscore p (smp (Suc i + l)) \<le> s"
  | j where "j < n" "b = smp (Suc i + j)" "s = rscore p b" "rscore p (smp i) < s"
      "\<forall>l<n. rscore p (smp (Suc i + l)) \<le> s" "\<forall>l<j. rscore p (smp (Suc i + l)) < s"
    by (auto simp: picked_def)
  then show ?thesis
  proof cases
    case 1
    with True show ?thesis
      unfolding picked_def by (intro disjI2 exI [of _ 0]) (simp add: All_less_Suc2)
  next
    case 2
    with True show ?thesis
      unfolding picked_def by (intro disjI2 exI [of _ "Suc j"]) (simp add: All_less_Suc2)
  qed
next
  case False
  with assms show ?thesis
    by (auto simp: picked_def All_less_Suc2 Ex_less_Suc2)
qed

lemma pick_best_max:
  fixes draws :: "nat \<Rightarrow> nat"
  assumes "healthy \<noteq> []" and "set healthy \<subseteq> dom (p_stats p)" and "p_mu p \<noteq> Writer"
  shows "\<exists>b s. pick_best draws p healthy i n best bs = Done (b, s) \<and>
           picked p (\<lambda>i. healthy ! (draws i mod length healthy)) i n best bs b s"
proof (induction n arbitrary: i best bs)
  case 0
  then show ?case by (simp add: picked_def)
next
  case (Suc n)
  let ?smp = "\<lambda>i. healthy ! (draws i mod length healthy)"
  have "?smp i \<in> set healthy" using assms(1) by simp
  then obtain st where st: "p_stats p (?smp i) = Some st" using assms(2) by blast
  then have "rscore p (?smp i) = score st" by (simp add: rscore_def map_get_Some)
  then have "pick_best draws p healthy i (Suc n) best bs =
      pick_best draws p healthy (Suc i) n (if bs < rscore p (?smp i) then ?smp i else best)
        (if bs < rscore p (?smp i) then rscore p (?smp i) else bs)"
    using assms(1,3) st by (simp add: pick_best_Suc)
  then show ?case
    using Suc.IH picked_Suc [where smp = ?smp] by metis
qed

lemma GetNext_pool: "snd (GetNext draws p) = p"
proof -
  have "snd (case pick_best draws p h 0 n b (- 1) of
          Done (best, sc) \<Rightarrow> if - 1 < sc then (Done best, p) else q best sc
        | Blocked \<Rightarrow> (Blocked, p) | Panic \<Rightarrow> (Panic, p)) = p" if "0 < n" for h n b q
    using that pick_best_score [of draws p h 0 n b "- 1"] by (auto split: outcome.split)
  then show ?thesis
    by (auto simp: GetNext_def Let_def split: option.split outcome.split)
qed

lemma GetNext_picks:
  assumes "pool_inv p" and "p_mu p = Readers k"
  defines "c \<equiv> min 3 (length (p_healthyCache p))"
  shows "\<exists>j<c. GetNext draws p = (Done (sample draws p j), p) \<and>
     (\<forall>l<c. rscore p (sample draws p l) \<le> rscore p (sample draws p j)) \<and>
     (\<forall>l<j. rscore p (sample draws p l) < rscore p (sample draws p j))"
proof -
  let ?h = "p_healthyCache p" and ?none = "\<lparr>Addr = [], URL = []\<rparr>"
  have h: "?h \<noteq> []" "set ?h \<subseteq> dom (p_stats p)" "p_mu p \<noteq> Writer"
    using assms pool_inv_cache [OF assms(1)] pool_invD(2) [OF assms(1)] by auto
  have c: "c = (if length ?h < 3 then length ?h else 3)" "0 < c" using h(1) by (auto simp: c_def)
  obtain b s where bs: "pick_best draws p ?h 0 c ?none (- 1) = Done (b, s)"
    and pk: "picked p (sample draws p) 0 c ?none (- 1) b s"
    using pick_best_max [OF h, of draws 0 c ?none "- 1"] by (auto simp: sample_def [abs_def])
  from pick_best_score [OF bs] c have s: "- 1 < s" by simp
  moreover have "GetNext draws p = (Done b, p)"
    using assms(2) h(1) bs s c by (simp add: GetNext_def Let_def)
  ultimately show ?thesis using pk by (auto simp: picked_def)
qed

lemma GetNext_member:
  assumes "pool_inv p" and "p_mu p = Readers k"
  shows "\<exists>r \<in> set (p_healthyCache p). GetNext draws p = (Done r, p)"
  using GetNext_picks [OF assms, of draws] pool_inv_cache(1) [OF assms(1)] by (fastforce simp: sample_def)

subsection \<open>Properties: selection\<close>

text \<open>C13: on a well-formed pool that no writer holds, \<open>GetNext\<close> returns without panicking and
  leaves the pool as it is; the resolver it returns is one of the (at most three) random draws
  from the cache of healthy resolvers, the first one whose score is the best of the draws.\<close>

theorem GetNext_best_of_draws:
  assumes "pool_inv p" and "p_mu p = Readers k"
  defines "c \<equiv> min 3 (length (p_healthyCache p))"
  shows "\<exists>j<c. GetNext draws p = (Done (sample draws p j), p) \<and>
     sample draws p j \<in> set (p_healthyCache p) \<and>
     (\<forall>l<c. rscore p (sample draws p l) \<le> rscore p (sample draws p j)) \<and>
     (\<forall>l<j. rscore p (sample draws p l) < rscore p (sample draws p j))"
proof -
  have "p_healthyCache p \<noteq> []" by (rule pool_inv_cache(1) [OF assms(1)])
  with GetNext_picks [OF assms(1,2)] show ?thesis
    unfolding c_def by (fastforce simp: sample_def)
qed

text \<open>The distribution mode is dead configuration: \<open>GetNext\<close> never advances the
  round-robin counter and returns the same resolver whatever the mode is.\<close>

lemma GetNext_ignores_mode:
  "snd (GetNext draws p) = p \<and> fst (GetNext draws (p\<lparr>p_mode := m\<rparr>)) = fst (GetNext draws p)"
proof -
  have "fst (case pick_best draws p h 0 n b (- 1) of
          Done (best, sc) \<Rightarrow> if - 1 < sc then (Done best, p\<lparr>p_mode := m\<rparr>) else q best sc
        | Blocked \<Rightarrow> (Blocked, p\<lparr>p_mode := m\<rparr>) | Panic \<Rightarrow> (Panic, p\<lparr>p_mode := m\<rparr>))
      = fst (case pick_best draws p h 0 n b (- 1) of
          Done (best, sc) \<Rightarrow> if - 1 < sc then (Done best, p) else q' best sc
        | Blocked \<Rightarrow> (Blocked, p) | Panic \<Rightarrow> (Panic, p))" if "0 < n" for h n b q q'
    using that pick_best_score [of draws p h 0 n b "- 1"] by (auto split: outcome.split)
  then have "fst (GetNext draws (p\<lparr>p_mode := m\<rparr>)) = fst (GetNext draws p)"
    by (auto simp: GetNext_def Let_def pick_best_mode split: option.split outcome.split)
  then show ?thesis by (simp add: GetNext_pool)
qed

text \<open>C21: as long as one configured resolver is up, a resolver that is down is never returned.\<close>

theorem GetNext_avoids_down:
  assumes "pool_inv p" and "p_mu p = Readers k"
    and "up \<in> set (p_resolvers p)" and "is_healthy p up"
    and "fst (GetNext draws p) = Done r"
  shows "is_healthy p r \<and> r \<in> set (p_resolvers p)"
proof -
  from GetNext_member [OF assms(1,2), of draws] assms(5)
  have "r \<in> set (p_healthyCache p)" by auto
  then have "r \<in> set (healthy_view p)" using pool_invD(4) [OF assms(1)] by simp
  then show ?thesis using assms(3,4) up_or_all_set up_or_all_up by (auto dest: up_or_all_up)
qed

lemma success_rate_mono:
  assumes "st_sent s = st_sent t" and "st_ok s \<le> st_ok t"
  shows "success_rate s \<le> success_rate t"
  using assms float_of_uint64_mono [OF assms(2)] float_of_uint64_pos [of "st_sent t"]
  by (auto simp: success_rate_def intro!: fl_mono divide_right_mono divide_nonneg_nonneg
      float_of_uint64_nonneg)

lemma success_rate_le1: "st_ok s \<le> st_sent s \<Longrightarrow> success_rate s \<le> 1"
  using fl_mono [of "float_of_uint64 (st_ok s) / float_of_uint64 (st_sent s)" 1]
    float_of_uint64_mono [of "st_ok s" "st_sent s"] float_of_uint64_nonneg [of "st_ok s"]
    float_of_uint64_pos [of "st_sent s"]
  by (auto simp: success_rate_def divide_le_eq)

lemma latency_ms_mono:
  assumes "0 \<le> st_latency t" and "st_latency t \<le> st_latency s"
  shows "latency_ms t \<le> latency_ms s"
proof -
  have "0 \<le> float_of_int64 (st_latency t)"
    using float_of_int64_mono [of 0 "st_latency t"] assms(1) by (simp add: float_of_int64_def fl_nonneg)
  then have "fl (float_of_int64 (st_latency t) / 10 ^ 6) \<le> fl (float_of_int64 (st_latency s) / 10 ^ 6)"
    using float_of_int64_mono [OF assms] by (intro fl_mono divide_right_mono) auto
  then show ?thesis by (simp add: latency_ms_def Let_def)
qed

lemma score_quotient_mono:
  assumes "0 \<le> a" "a \<le> b" "1 \<le> y" "y \<le> x"
  shows "fl (a / fl (x / 100)) \<le> fl (b / fl (y / 100))"
proof -
  have "0 < fl (y / 100)" using assms by (intro fl_positive) simp
  moreover have "fl (y / 100) \<le> fl (x / 100)" using assms by (intro fl_mono) auto
  ultimately have "a / fl (x / 100) \<le> b / fl (y / 100)"
    using assms by (intro frac_le) auto
  moreover have "0 \<le> a / fl (x / 100)"
    using assms by (intro divide_nonneg_nonneg fl_nonneg) auto
  ultimately show ?thesis by (intro fl_mono)
qed

lemma score_new_stats: "score new_stats = 100"
  by code_simp

text \<open>C22: the score orders resolvers as intended, floating-point rounding included: of two
  resolvers with the same number of queries sent, one with at least as many successes and at
  most the latency scores at least as high; no score with \<open>ok \<le> sent\<close> exceeds the score 100 of
  a resolver that has not been tried yet.\<close>

theorem score_monotone:
  assumes "st_sent s = st_sent t" and "st_ok s \<le> st_ok t" and "st_ok t \<le> st_sent t"
    and "0 \<le> st_latency t" and "st_latency t \<le> st_latency s"
  shows "score s \<le> score t \<and> score t \<le> score new_stats"
proof
  show "score s \<le> score t"
    unfolding score_def
    using success_rate_nonneg success_rate_mono [OF assms(1,2)] latency_ms_ge1 latency_ms_mono [OF assms(4,5)]
    by (rule score_quotient_mono)
  have "score t \<le> fl (1 / fl (1 / 100))"
    unfolding score_def
    using success_rate_nonneg success_rate_le1 [OF assms(3)] order_refl latency_ms_ge1
    by (rule score_quotient_mono)
  also have "\<dots> = score new_stats"
    by (simp add: score_def success_rate_def latency_ms_def new_stats_def float_of_int64_def)
  finally show "score t \<le> score new_stats" .
qed

subsection \<open>Properties: health bookkeeping\<close>

lemma MarkFailure_known:
  assumes "p_mu p = Readers 0" and "p_stats p r \<noteq> None"
  shows "p_mu (snd (MarkFailure r p)) = Readers 0"
    and "p_stats (snd (MarkFailure r p)) r \<noteq> None"
    and "streak (snd (MarkFailure r p)) r = i64 (streak p r + 1)"
    and "is_healthy (snd (MarkFailure r p)) r \<longleftrightarrow> is_healthy p r \<and> i64 (streak p r + 1) < 10"
  using assms by (auto simp: MarkFailure_free split: if_splits)

lemma MarkFailure_iter:
  assumes "p_mu p = Readers 0" and "p_stats p r \<noteq> None"
    and "0 \<le> streak p r" and "streak p r + int n < 2 ^ 63"
  shows "let q = ((\<lambda>q. snd (MarkFailure r q)) ^^ n) p in
     p_mu q = Readers 0 \<and> p_stats q r \<noteq> None \<and> streak q r = streak p r + int n \<and>
     (is_healthy q r \<longleftrightarrow> is_healthy p r \<and> (n = 0 \<or> streak p r + int n < 10))"
  using assms(4)
proof (induction n)
  case 0
  then show ?case using assms by simp
next
  case (Suc n)
  let ?q = "((\<lambda>q. snd (MarkFailure r q)) ^^ n) p"
  have IH: "p_mu ?q = Readers 0" "p_stats ?q r \<noteq> None" "streak ?q r = streak p r + int n"
    "is_healthy ?q r \<longleftrightarrow> is_healthy p r \<and> (n = 0 \<or> streak p r + int n < 10)"
    using Suc by (simp_all add: Let_def)
  have "i64 (streak ?q r + 1) = streak p r + int (Suc n)"
    using IH(3) Suc.prems assms(3) by simp
  with MarkFailure_known [OF IH(1,2)] IH(4) show ?case by (auto simp: Let_def)
qed

text \<open>C20: starting from a healthy resolver with fail streak \<open>k\<close>, it stays in service through
  every run of \<open>n\<close> consecutive failures with \<open>k + n < 10\<close> and is out of service after any longer
  one: the threshold is exactly ten failures in a row.\<close>

theorem MarkFailure_threshold:
  assumes "p_mu p = Readers 0" and "p_stats p r = Some s" and "is_healthy p r"
    and "0 \<le> streak p r" and "streak p r < 10" and "int n < 2 ^ 62"
  shows "is_healthy (((\<lambda>q. snd (MarkFailure r q)) ^^ n) p) r \<longleftrightarrow> streak p r + int n < 10"
  using MarkFailure_iter [of p r n] assms by (auto simp: Let_def)

text \<open>A success puts a known resolver back into service at once: it is healthy, its fail
  streak is zero, it is counted as one more success, and \<open>GetNext\<close> can draw it again.\<close>

lemma MarkSuccess_revives:
  assumes "pool_inv p" and "p_mu p = Readers 0" and "p_stats p r = Some s" and "r \<in> set (p_resolvers p)"
  shows "\<exists>q. MarkSuccessWithLatency r lat p = (Done (), q) \<and> is_healthy q r \<and> streak q r = 0 \<and>
     r \<in> set (p_healthyCache q) \<and>
     p_stats q r = Some (s\<lparr>st_ok := st_ok s + 1, st_latency := ewma (st_latency s) lat\<rparr>) \<and>
     (\<forall>r'. r' \<noteq> r \<longrightarrow> p_stats q r' = p_stats p r' \<and> is_healthy q r' = is_healthy p r')"
proof -
  have "r \<in> set (p_healthyCache p)" if "is_healthy p r"
    using that assms(4) pool_invD(4) [OF assms(1)] by (auto simp: up_or_all_def)
  moreover have "r \<in> set (p_healthyCache (set_health r True (succeeded r s lat p)))"
    using assms(4) by (auto simp: up_or_all_def)
  ultimately show ?thesis
    using assms by (auto simp: MarkSuccess_free)
qed

text \<open>The latency average lies between the old average and the new measurement, within one
  nanosecond of \<open>0.2 * new + 0.8 * old\<close>; nothing overflows below \<open>2 ^ 59\<close> ns (18 years).\<close>

lemma ewma_bounds:
  assumes "0 < old" and "old < 2 ^ 59" and "0 \<le> new" and "new < 2 ^ 59"
  shows "min old new \<le> ewma old new \<and> ewma old new \<le> max old new \<and>
     10 * ewma old new \<le> 2 * new + 8 * old \<and> 2 * new + 8 * old < 10 * ewma old new + 10"
proof -
  have "i64 (i64 (new * 2) + i64 (old * 8)) = 2 * new + 8 * old"
    using assms by simp
  then have e: "ewma old new = (2 * new + 8 * old) div 10"
    using assms by (simp add: ewma_def go_quot_nonneg)
  show ?thesis unfolding e by (auto simp: min_def max_def)
qed

lemma HealthyCount_Done:
  "p_mu p = Readers k \<Longrightarrow> HealthyCount p = (Done (length (p_healthyCache p)), p)"
  by (simp add: HealthyCount_def with_RLock_def)

text \<open>\<open>HealthyCount\<close> is never zero, and it cannot tell a pool in which every resolver is down
  from one in which every resolver is up: in both it is the number of configured resolvers.\<close>

lemma HealthyCount_blind:
  assumes "pool_inv p" and "p_mu p = Readers k"
  shows "\<exists>n>0. HealthyCount p = (Done n, p) \<and>
     ((\<forall>r \<in> set (p_resolvers p). \<not> is_healthy p r) \<longrightarrow> n = length (p_resolvers p)) \<and>
     ((\<forall>r \<in> set (p_resolvers p). is_healthy p r) \<longrightarrow> n = length (p_resolvers p))"
proof -
  have "p_healthyCache p = p_resolvers p" if "\<forall>r \<in> set (p_resolvers p). \<not> is_healthy p r"
    using that pool_invD(4) [OF assms(1)] by (simp add: up_or_all_none)
  moreover have "p_healthyCache p = p_resolvers p" if "\<forall>r \<in> set (p_resolvers p). is_healthy p r"
    using that pool_invD(4) [OF assms(1)] by (simp add: up_or_all_def)
  ultimately show ?thesis
    using assms(2) pool_inv_cache(1) [OF assms(1)] by (auto simp: HealthyCount_Done)
qed

subsection \<open>Properties: replacing the resolvers\<close>

lemma add_resolvers_simps [simp]:
  "p_resolvers (add_resolvers rs p) = p_resolvers p" "p_mu (add_resolvers rs p) = p_mu p"
  "p_mode (add_resolvers rs p) = p_mode p" "p_doh (add_resolvers rs p) = p_doh p"
  by (induction rs arbitrary: p) (auto simp: Let_def)

lemma add_resolvers_stats:
  "p_stats (add_resolvers rs p) r =
     (if p_stats p r = None \<and> r \<in> set rs then Some new_stats else p_stats p r)"
  by (induction rs arbitrary: p) (auto simp: Let_def)

lemma add_resolvers_healthy:
  "p_healthy (add_resolvers rs p) r =
     (if p_healthy p r = None \<and> r \<in> set rs then Some True else p_healthy p r)"
  by (induction rs arbitrary: p) (auto simp: Let_def)

lemma add_resolvers_streak:
  "p_failStreak (add_resolvers rs p) r =
     (if p_stats p r = None \<and> r \<in> set rs then Some 0 else p_failStreak p r)"
  by (induction rs arbitrary: p) (auto simp: Let_def)

lemma add_resolvers_inv:
  assumes "pool_inv p" and "rs \<noteq> []"
  shows "pool_inv (rebuildHealthyCache (add_resolvers rs (p\<lparr>p_mu := m, p_resolvers := rs\<rparr>)))"
proof (rule rebuild_inv)
  let ?q = "add_resolvers rs (p\<lparr>p_mu := m, p_resolvers := rs\<rparr>)"
  note dom = pool_inv_dom [OF assms(1)]
  show "p_resolvers ?q \<noteq> []" using assms(2) by simp
  show "set (p_resolvers ?q) \<subseteq> dom (p_stats ?q)" by (auto simp: add_resolvers_stats)
  show "dom (p_healthy ?q) = dom (p_stats ?q)"
  proof (rule set_eqI)
    show "r \<in> dom (p_healthy ?q) \<longleftrightarrow> r \<in> dom (p_stats ?q)" for r
      using dom [of r] by (cases "p_stats p r"; cases "p_healthy p r")
        (simp_all add: domIff add_resolvers_stats add_resolvers_healthy del: not_None_eq)
  qed
  show "\<forall>r. is_healthy ?q r \<longrightarrow> streak ?q r < 10"
    using pool_invD(5) [OF assms(1)]
    by (auto simp: map_get_def add_resolvers_healthy add_resolvers_streak dom split: option.splits if_splits)
qed

lemma ExportVerified_Writer: "p_mu p = Writer \<Longrightarrow> ExportVerified p = (Blocked, p)"
  by (simp add: ExportVerified_def)

lemma UpdateResolvers_free:
  "p_mu p = Readers 0 \<Longrightarrow> UpdateResolvers ordered p =
     (Blocked, rebuildHealthyCache (add_resolvers ordered (p\<lparr>p_mu := Writer, p_resolvers := ordered\<rparr>)))"
  by (simp add: UpdateResolvers_def with_Lock_def ExportVerified_Writer)

text \<open>C1: \<open>UpdateResolvers\<close> never returns. It takes the write lock and then calls
  \<open>ExportVerified\<close>, which asks the same, non-reentrant mutex for a read lock; started on an
  unlocked pool it is stuck with the new list already installed and the write lock held.\<close>

theorem UpdateResolvers_deadlocks:
  "fst (UpdateResolvers ordered p) = Blocked \<and>
   (p_mu p = Readers 0 \<longrightarrow> p_mu (snd (UpdateResolvers ordered p)) = Writer \<and>
      p_resolvers (snd (UpdateResolvers ordered p)) = ordered)"
proof (cases "p_mu p = Readers 0")
  case True
  then show ?thesis by (simp add: UpdateResolvers_free)
qed (simp add: UpdateResolvers_def)

lemma stats_lines_Done:
  "set rs \<subseteq> dom (p_stats p) \<Longrightarrow> stats_lines p rs acc = Done (acc @ concat (map (\<lambda>r. stats_line p r (the (p_stats p r))) rs))"
  by (induction rs arbitrary: acc) auto

text \<open>The statistics are printed for every resolver of a well-formed pool.\<close>

lemma StatsString_returns:
  assumes "pool_inv p" and "p_mu p = Readers k"
  shows "StatsString p = (Done (concat (map (\<lambda>r. stats_line p r (the (p_stats p r))) (p_resolvers p))), p)"
proof -
  have "p\<lparr>p_mu := Readers k\<rparr> = p" using assms(2) by simp
  moreover have "stats_line (p\<lparr>p_mu := m\<rparr>) = stats_line p" for m by (simp add: stats_line_def fun_eq_iff)
  ultimately show ?thesis
    using pool_invD(2) [OF assms(1)] assms(2)
    by (simp add: StatsString_def with_RLock_def stats_lines_Done)
qed

lemma Writer_blocks:
  assumes "p_mu q = Writer"
  shows "GetNext draws q = (Blocked, q)" and "find_stats r q = (Blocked, q)" and "MarkSent r q = (Blocked, q)"
    and "MarkSuccessWithLatency r lat q = (Blocked, q)" and "MarkFailure r q = (Blocked, q)"
    and "HealthyCount q = (Blocked, q)" and "HealthCheck mkquery nets order q = (Blocked, q)"
    and "UpdateResolvers rs q = (Blocked, q)" and "SetOnResolverDown fn q = (Blocked, q)"
    and "SetHealthDomain d q = (Blocked, q)" and "ExportVerified q = (Blocked, q)"
  using assms
  by (simp_all add: GetNext_def find_stats_def MarkSent_eq MarkSuccessWithLatency_def MarkFailure_def HealthyCount_def
      HealthCheck_def UpdateResolvers_def SetOnResolverDown_def SetHealthDomain_def ExportVerified_Writer)

text \<open>Once \<open>UpdateResolvers\<close> has run, every other method of the pool that takes its mutex
  blocks and changes nothing: no query is selected, counted, or retired, and no further update,
  health check or count completes.\<close>

lemma UpdateResolvers_freezes_pool:
  fixes ordered :: "Resolver list"
  assumes "p_mu p = Readers 0"
  defines "q \<equiv> snd (UpdateResolvers ordered p)"
  shows "GetNext draws q = (Blocked, q) \<and> MarkSent r q = (Blocked, q) \<and>
     MarkSuccessWithLatency r lat q = (Blocked, q) \<and> MarkFailure r q = (Blocked, q) \<and>
     HealthyCount q = (Blocked, q) \<and> HealthCheck mkquery nets order q = (Blocked, q) \<and>
     UpdateResolvers rs q = (Blocked, q) \<and> SetOnResolverDown fn q = (Blocked, q) \<and>
     SetHealthDomain d q = (Blocked, q)"
proof -
  have "p_mu q = Writer" using assms by (simp add: UpdateResolvers_free)
  then show ?thesis by (simp add: Writer_blocks)
qed

text \<open>What \<open>UpdateResolvers\<close> has written when it gets stuck: the new list, with the
  statistics and the health of the resolvers already known kept and fresh entries for the others.
  In particular a resolver that was down stays down although a scan has just verified it.\<close>

lemma UpdateResolvers_content:
  fixes ordered :: "Resolver list"
  assumes "pool_inv p" and "p_mu p = Readers 0" and "ordered \<noteq> []"
  defines "q \<equiv> snd (UpdateResolvers ordered p)"
  shows "pool_inv q \<and> p_resolvers q = ordered \<and>
     (\<forall>r. p_stats p r \<noteq> None \<longrightarrow> p_stats q r = p_stats p r \<and> is_healthy q r = is_healthy p r) \<and>
     (\<forall>r \<in> set ordered. p_stats p r = None \<longrightarrow>
        p_stats q r = Some new_stats \<and> is_healthy q r \<and> streak q r = 0)"
proof -
  note dom = pool_inv_dom [OF assms(1)]
  have q: "q = rebuildHealthyCache (add_resolvers ordered (p\<lparr>p_mu := Writer, p_resolvers := ordered\<rparr>))"
    using assms by (simp add: UpdateResolvers_free)
  have "pool_inv q" unfolding q by (rule add_resolvers_inv [OF assms(1,3)])
  then show ?thesis
    unfolding q
    by (simp add: add_resolvers_stats map_get_def add_resolvers_healthy add_resolvers_streak dom)
qed

subsection \<open>Properties: probing\<close>

lemma record_probes_healthy:
  "distinct (map fst res) \<Longrightarrow>
   p_healthy (record_probes res p) r = (case map_of res r of Some b \<Rightarrow> Some b | None \<Rightarrow> p_healthy p r)"
proof (induction res arbitrary: p)
  case (Cons x res)
  then have "map_of res (fst x) = None" by (auto simp: map_of_eq_None_iff)
  with Cons show ?case by (cases x) (auto simp: record_probes_Cons split: option.splits)
qed simp

lemma probe_results_distinct:
  assumes "distinct (p_resolvers p)" and "distinct order" and "set order \<subseteq> {..<length (p_resolvers p)}"
  shows "distinct (map fst (map (probe_result nets q p) order))"
proof -
  have "map fst (map (probe_result nets q p) order) = map ((!) (p_resolvers p)) order"
    by (simp add: probe_result_def Let_def)
  also have "distinct \<dots>"
    using assms by (simp add: distinct_map inj_on_nth subset_eq)
  finally show ?thesis .
qed


text \<open>The startup probe keeps exactly the resolvers that answered, in the order their answers
  arrived, and keeps all of them when none did; a pool built from its result is well formed.\<close>

lemma ProbeResolvers_keeps_answering:
  fixes nets :: "nat \<Rightarrow> transport" and q :: bytes
  assumes "pool_inv p" and "mset order = mset [0..<length (p_resolvers p)]"
    and "mkquery ''google.com'' = Some q"
  defines "alive \<equiv> \<lambda>i. is_ok (SendQuery (nets i) q (p_resolvers p ! i) p)"
  shows "ProbeResolvers mkquery nets order p =
      (if \<exists>i < length (p_resolvers p). alive i
       then map ((!) (p_resolvers p)) (filter alive order) else p_resolvers p) \<and>
     pool_inv (NewResolverPool (ProbeResolvers mkquery nets order p) mode doh)"
proof -
  have ord: "set order = {..<length (p_resolvers p)}"
    using mset_eq_setD [OF assms(2)] by (auto simp: atLeast0LessThan)
  have work: "map fst (filter snd (map (probe_result nets q p) order)) = map ((!) (p_resolvers p)) (filter alive order)"
    by (simp add: filter_map o_def probe_result_def Let_def alive_def)
  have none: "length (map ((!) (p_resolvers p)) (filter alive order)) = 0 \<longleftrightarrow>
      \<not> (\<exists>i < length (p_resolvers p). alive i)"
    using ord by (auto simp: filter_empty_conv)
  have eq: "ProbeResolvers mkquery nets order p =
      (if \<exists>i < length (p_resolvers p). alive i
       then map ((!) (p_resolvers p)) (filter alive order) else p_resolvers p)"
    unfolding ProbeResolvers_def Let_def assms(3) option.case work none by auto
  moreover have "ProbeResolvers mkquery nets order p \<noteq> []"
    using eq ord pool_invD(1) [OF assms(1)] by (auto simp: filter_empty_conv)
  ultimately show ?thesis using NewResolverPool_inv by blast
qed

subsection \<open>Reachable pools\<close>

inductive pool_step :: "pool \<Rightarrow> pool \<Rightarrow> bool" where
  select: "pool_step p (snd (GetNext draws p))"
| mark_sent: "pool_step p (snd (MarkSent r p))"
| mark_success: "pool_step p (snd (MarkSuccessWithLatency r lat p))"
| mark_failure: "pool_step p (snd (MarkFailure r p))"
| health: "set order \<subseteq> {..<length (p_resolvers p)} \<Longrightarrow> pool_step p (snd (HealthCheck mkquery nets order p))"
| count: "pool_step p (snd (HealthyCount p))"
| update: "ordered \<noteq> [] \<Longrightarrow> pool_step p (snd (UpdateResolvers ordered p))"
| set_callback: "pool_step p (snd (SetOnResolverDown fn p))"
| set_domain: "pool_step p (snd (SetHealthDomain d p))"

inductive pool_reachable :: "pool \<Rightarrow> bool" where
  start: "resolvers \<noteq> [] \<Longrightarrow> pool_reachable (NewResolverPool resolvers mode doh)"
| step: "pool_reachable p \<Longrightarrow> pool_step p q \<Longrightarrow> pool_reachable q"

lemma SetOnResolverDown_inv: "pool_inv p \<Longrightarrow> pool_inv (snd (SetOnResolverDown fn p))"
  unfolding SetOnResolverDown_def
  by (cases "p_mu p = Readers 0") (simp add: with_Lock_def, simp only: with_Lock_busy snd_conv not_False_eq_True)

lemma SetHealthDomain_inv: "pool_inv p \<Longrightarrow> pool_inv (snd (SetHealthDomain d p))"
  unfolding SetHealthDomain_def
  by (cases "p_mu p = Readers 0") (simp add: with_Lock_def, simp only: with_Lock_busy snd_conv not_False_eq_True)

lemma HealthyCount_pool: "snd (HealthyCount p) = p"
  by (cases "p_mu p") (simp_all add: HealthyCount_def with_RLock_def)

lemma UpdateResolvers_inv: "pool_inv p \<Longrightarrow> ordered \<noteq> [] \<Longrightarrow> pool_inv (snd (UpdateResolvers ordered p))"
  by (cases "p_mu p = Readers 0") (simp_all add: UpdateResolvers_free add_resolvers_inv, simp add: UpdateResolvers_def)

lemmas pool_op_invs = MarkFailure_inv MarkSuccess_inv MarkSent_inv HealthCheck_inv
  SetOnResolverDown_inv SetHealthDomain_inv UpdateResolvers_inv

lemma pool_step_inv: "pool_step p q \<Longrightarrow> pool_inv p \<Longrightarrow> pool_inv q"
  by (induction rule: pool_step.induct)
    (simp_all add: pool_op_invs GetNext_pool HealthyCount_pool)

text \<open>C6: in every pool the program can reach, by any sequence of operations, the invariant holds:
  every configured resolver has statistics and a health mark, the cache of healthy resolvers is the
  healthy part of the list (or all of it when nothing is healthy), and a healthy resolver has
  failed fewer than ten times in a row.\<close>

theorem pool_reachable_inv: "pool_reachable p \<Longrightarrow> pool_inv p"
  by (induction rule: pool_reachable.induct) (auto intro: NewResolverPool_inv pool_step_inv)

subsection \<open>Instances\<close>

text \<open>A pool of two UDP resolvers, at which the properties above are applied.\<close>

definition ex_r1 :: Resolver where "ex_r1 = \<lparr>Addr = ''1.1.1.1:53'', URL = []\<rparr>"
definition ex_r2 :: Resolver where "ex_r2 = \<lparr>Addr = ''8.8.8.8:53'', URL = []\<rparr>"
definition ex_pool :: pool where "ex_pool = NewResolverPool [ex_r1, ex_r2] ''round-robin'' False"

text \<open>A network in which every UDP exchange is answered with two bytes, and one where none is.\<close>

definition ex_net :: "bytes \<Rightarrow> transport" where
  "ex_net answer = \<lparr>udp_dial = \<lambda>_ _. None, udp_write = \<lambda>_. None, udp_read = Inr answer,
     http_new_request = \<lambda>_. None, http_do = \<lambda>_ _ _. Inr (200, Inr answer)\<rparr>"

definition ex_dead_net :: transport where
  "ex_dead_net = \<lparr>udp_dial = \<lambda>_ _. Some (fmtErr ''unreachable''), udp_write = \<lambda>_. None,
     udp_read = Inl (fmtErr ''closed''), http_new_request = \<lambda>_. None,
     http_do = \<lambda>_ _ _. Inl (fmtErr ''unreachable'')\<rparr>"

lemma ex_distinct [simp]: "ex_r1 \<noteq> ex_r2" "ex_r2 \<noteq> ex_r1"
  by (simp_all add: ex_r1_def ex_r2_def)

lemma ex_pool_inv: "pool_inv ex_pool"
  by (simp add: ex_pool_def NewResolverPool_inv)

lemma ex_pool_simps [simp]:
  "p_mu ex_pool = Readers 0" "p_resolvers ex_pool = [ex_r1, ex_r2]"
  "p_healthyCache ex_pool = [ex_r1, ex_r2]" "p_healthDomain ex_pool = ''google.com''"
  "p_doh ex_pool = False" "p_stats ex_pool ex_r1 = Some new_stats" "p_stats ex_pool ex_r2 = Some new_stats"
  "is_healthy ex_pool ex_r1" "is_healthy ex_pool ex_r2" "streak ex_pool ex_r1 = 0" "streak ex_pool ex_r2 = 0"
  by (simp_all add: ex_pool_def NewResolverPool_def)

lemma ex_net_ok [simp]:
  "is_ok (SendQuery (ex_net a) q r ex_pool)" "\<not> is_ok (SendQuery ex_dead_net q r ex_pool)"
  by (simp_all add: SendQuery_def sendQueryUDP_def ex_net_def ex_dead_net_def is_ok_def)

theorem GetNext_best_of_draws_witness:
  "\<exists>j<min 3 (length (p_healthyCache ex_pool)).
     GetNext id ex_pool = (Done (sample id ex_pool j), ex_pool)"
  using GetNext_best_of_draws [OF ex_pool_inv, of 0 id] ex_pool_simps(1) by blast

theorem GetNext_avoids_down_witness: "is_healthy ex_pool ex_r1 \<and> ex_r1 \<in> set (p_resolvers ex_pool)"
proof (rule GetNext_avoids_down [OF ex_pool_inv, of 0 ex_r2 "\<lambda>_. 0"])
  show "fst (GetNext (\<lambda>_. 0) ex_pool) = Done ex_r1"
    by (simp add: GetNext_def Let_def pick_best_Suc score_new_stats eval_nat_numeral)
qed simp_all

theorem score_monotone_witness:
  "score (new_stats\<lparr>st_sent := 4, st_ok := 1, st_latency := 90000000\<rparr>)
     \<le> score (new_stats\<lparr>st_sent := 4, st_ok := 3, st_latency := 20000000\<rparr>)"
  using score_monotone [of "new_stats\<lparr>st_sent := 4, st_ok := 1, st_latency := 90000000\<rparr>"
      "new_stats\<lparr>st_sent := 4, st_ok := 3, st_latency := 20000000\<rparr>"] by simp

theorem MarkFailure_threshold_witness:
  "is_healthy (((\<lambda>q. snd (MarkFailure ex_r1 q)) ^^ 9) ex_pool) ex_r1"
  using MarkFailure_threshold [of ex_pool ex_r1 new_stats 9] by simp

lemma MarkSuccess_revives_witness:
  "\<exists>q. MarkSuccessWithLatency ex_r1 25000000 ex_pool = (Done (), q) \<and> is_healthy q ex_r1"
  using MarkSuccess_revives [OF ex_pool_inv, of ex_r1 new_stats 25000000] by auto

lemma ewma_bounds_witness: "min 100 50 \<le> ewma 100 50 \<and> ewma 100 50 \<le> max 100 50"
  using ewma_bounds [of 100 50] by simp

lemma HealthyCount_blind_witness: "\<exists>n>0. HealthyCount ex_pool = (Done n, ex_pool) \<and> n = 2"
  using HealthyCount_blind [OF ex_pool_inv, of 0] by auto

theorem UpdateResolvers_deadlocks_witness:
  "fst (UpdateResolvers [ex_r2] ex_pool) = Blocked \<and> p_mu (snd (UpdateResolvers [ex_r2] ex_pool)) = Writer"
  using UpdateResolvers_deadlocks [of "[ex_r2]" ex_pool] by simp

lemma UpdateResolvers_freezes_pool_witness:
  "GetNext id (snd (UpdateResolvers [ex_r2] ex_pool)) = (Blocked, snd (UpdateResolvers [ex_r2] ex_pool))"
  using UpdateResolvers_freezes_pool [of ex_pool id "[ex_r2]"] by simp

lemma UpdateResolvers_content_witness:
  "p_resolvers (snd (UpdateResolvers [ex_r2] ex_pool)) = [ex_r2] \<and>
   p_stats (snd (UpdateResolvers [ex_r2] ex_pool)) ex_r2 = Some new_stats"
  using UpdateResolvers_content [OF ex_pool_inv, of "[ex_r2]"] by auto


lemma ProbeResolvers_keeps_answering_witness:
  "pool_inv (NewResolverPool (ProbeResolvers (\<lambda>_. Some [1]) (\<lambda>_. ex_dead_net) [1, 0] ex_pool) ''random'' False)"
  by (rule ProbeResolvers_keeps_answering [OF ex_pool_inv, of "[1, 0]" "\<lambda>_. Some [1]" "[1]" "\<lambda>_. ex_dead_net" "''random''" False, THEN conjunct2])
    (simp_all add: numeral_2_eq_2 add_mset_commute)

theorem pool_reachable_inv_witness:
  "pool_inv (snd (MarkFailure ex_r1 (snd (GetNext id ex_pool))))"
  by (rule pool_reachable_inv)
    (unfold ex_pool_def, intro pool_reachable.step [OF _ pool_step.mark_failure]
      pool_reachable.step [OF _ pool_step.select] pool_reachable.start, simp)

end
