(* ===== verification/DnsMsg.thy ===== *)
theory DnsMsg
  imports GoStrings
begin

text \<open>
  The DNS messages of the \<open>miekg/dns\<close> library, as far as the program looks at them. Packing
  and unpacking are the library's: they are parameters of the definitions that use them.
\<close>

record question =
  q_Name :: string
  q_Qtype :: uint16
  q_Qclass :: uint16

text \<open>Resource records: the program tells OPT and TXT records from the others.\<close>

datatype rr =
    RR_OPT uint32
  | RR_TXT uint32 "string list"
  | RR_other uint32

fun rr_Ttl :: "rr \<Rightarrow> uint32" where
  "rr_Ttl (RR_OPT t) = t"
| "rr_Ttl (RR_TXT t _) = t"
| "rr_Ttl (RR_other t) = t"

fun is_OPT :: "rr \<Rightarrow> bool" where
  "is_OPT (RR_OPT _) = True"
| "is_OPT _ = False"

record dns_msg =
  Question :: "question list"
  Answer :: "rr list"
  Ns :: "rr list"
  Extra :: "rr list"

text \<open>\<open>msg.Unpack\<close>; \<open>None\<close> is its error.\<close>

type_synonym unpacker = "bytes \<Rightarrow> dns_msg option"

end
