(* ===== verification/Cache.thy ===== *)
theory Cache
  imports DnsMsg
begin

text \<open>
  \<open>cache.go\<close>: the LRU cache of responses. \<open>container/list\<close> is modelled with its element
  identities: the order list holds pairs of an element and the key stored in it, front first,
  and an entry of \<open>items\<close> refers to its element. The cache's mutex is held for the whole of
  each operation and never twice, so every operation is one step.
\<close>

subsection \<open>State\<close>

record cacheKey =
  k_Name :: string
  k_Type :: uint16
  k_Class :: uint16

record cacheEntry =
  response :: bytes
  expiresAt :: int
  element :: nat

record DNSCache =
  c_maxSize :: int
  c_items :: "cacheKey \<rightharpoonup> cacheEntry"
  c_order :: "(nat \<times> cacheKey) list"
  c_next :: nat

definition NewDNSCache :: "int \<Rightarrow> DNSCache" where
  "NewDNSCache maxSize = \<lparr>c_maxSize = maxSize, c_items = Map.empty, c_order = [], c_next = 0\<rparr>"

subsection \<open>The doubly linked list\<close>

definition lst_Remove :: "nat \<Rightarrow> (nat \<times> 'k) list \<Rightarrow> (nat \<times> 'k) list" where
  "lst_Remove e xs = filter (\<lambda>x. fst x \<noteq> e) xs"

definition lst_MoveToFront :: "nat \<Rightarrow> (nat \<times> 'k) list \<Rightarrow> (nat \<times> 'k) list" where
  "lst_MoveToFront e xs =
     (case find (\<lambda>x. fst x = e) xs of None \<Rightarrow> xs | Some x \<Rightarrow> x # lst_Remove e xs)"

subsection \<open>Keys and lifetimes\<close>

definition extractKey :: "unpacker \<Rightarrow> bytes \<Rightarrow> cacheKey option" where
  "extractKey unpack raw =
     (case unpack raw of None \<Rightarrow> None
      | Some msg \<Rightarrow>
          (case Question msg of [] \<Rightarrow> None
           | q # _ \<Rightarrow> Some \<lparr>k_Name = ToLower (q_Name q), k_Type = q_Qtype q, k_Class = q_Qclass q\<rparr>))"

fun min_loop :: "rr list \<Rightarrow> uint32 \<times> bool \<Rightarrow> uint32 \<times> bool" where
  "min_loop [] acc = acc"
| "min_loop (r # rs) (mn, first) =
     (if is_OPT r then min_loop rs (mn, first)
      else if first \<or> rr_Ttl r < mn then min_loop rs (rr_Ttl r, False)
      else min_loop rs (mn, first))"

definition minTTL :: "unpacker \<Rightarrow> bytes \<Rightarrow> int" where
  "minTTL unpack raw =
     (case unpack raw of None \<Rightarrow> 0
      | Some msg \<Rightarrow>
          (let (mn, first) = min_loop (Extra msg) (min_loop (Ns msg) (min_loop (Answer msg) (0, True)))
           in if first then 0 else i64 (uint mn * 10 ^ 9)))"

subsection \<open>Lookup\<close>

definition remove_entry :: "cacheKey \<Rightarrow> cacheEntry \<Rightarrow> DNSCache \<Rightarrow> DNSCache" where
  "remove_entry key entry c =
     c\<lparr>c_order := lst_Remove (element entry) (c_order c), c_items := (c_items c)(key := None)\<rparr>"

text \<open>The part of \<open>Get\<close> under the lock, up to the copy of the stored response.\<close>

definition get_key :: "cacheKey \<Rightarrow> int \<Rightarrow> DNSCache \<Rightarrow> bytes option \<times> DNSCache" where
  "get_key key now c =
     (case c_items c key of None \<Rightarrow> (None, c)
      | Some entry \<Rightarrow>
          if expiresAt entry < now then (None, remove_entry key entry c)
          else (Some (response entry), c\<lparr>c_order := lst_MoveToFront (element entry) (c_order c)\<rparr>))"

definition rewrite_id :: "bytes \<Rightarrow> bytes \<Rightarrow> bytes" where
  "rewrite_id query resp =
     (if 2 \<le> length query \<and> 2 \<le> length resp then resp[0 := query ! 0, 1 := query ! 1] else resp)"

definition Get :: "unpacker \<Rightarrow> int \<Rightarrow> bytes \<Rightarrow> DNSCache \<Rightarrow> bytes option \<times> DNSCache" where
  "Get unpack now query c =
     (case extractKey unpack query of None \<Rightarrow> (None, c)
      | Some key \<Rightarrow>
          (case get_key key now c of
             (None, c') \<Rightarrow> (None, c')
           | (Some resp, c') \<Rightarrow> (Some (rewrite_id query resp), c')))"

subsection \<open>Insertion\<close>

lemma length_lst_Remove_last:
  "xs \<noteq> [] \<Longrightarrow> length (lst_Remove (fst (last xs)) xs) < length xs"
  unfolding lst_Remove_def by (rule length_filter_less [of "last xs"]) auto

function evict :: "DNSCache \<Rightarrow> DNSCache" where
  "evict c =
     (if c_maxSize c \<le> int (length (c_order c)) then
        (if c_order c = [] then c
         else (let (e, k) = last (c_order c)
               in evict (c\<lparr>c_order := lst_Remove e (c_order c), c_items := (c_items c)(k := None)\<rparr>)))
      else c)"
  by pat_completeness auto
termination
  by (relation "measure (\<lambda>c. length (c_order c))")
    (auto, metis fst_conv length_lst_Remove_last)

declare evict.simps [simp del]

text \<open>The part of \<open>Put\<close> under the lock.\<close>

definition put_key :: "cacheKey \<Rightarrow> bytes \<Rightarrow> int \<Rightarrow> DNSCache \<Rightarrow> DNSCache" where
  "put_key key stored expires c =
     (let c1 = (case c_items c key of None \<Rightarrow> c | Some entry \<Rightarrow> remove_entry key entry c);
          c2 = evict c1;
          elem = c_next c2
      in c2\<lparr>c_order := (elem, key) # c_order c2, c_next := elem + 1,
            c_items := (c_items c2)(key \<mapsto>
              \<lparr>response = stored, expiresAt = expires, element = elem\<rparr>)\<rparr>)"

definition Put :: "unpacker \<Rightarrow> int \<Rightarrow> bytes \<Rightarrow> bytes \<Rightarrow> DNSCache \<Rightarrow> DNSCache" where
  "Put unpack now query resp c =
     (case extractKey unpack query of None \<Rightarrow> c
      | Some key \<Rightarrow>
          (let ttl = minTTL unpack resp
           in if ttl \<le> 0 then c else put_key key resp (now + ttl) c))"

end
