(* ===== verification/CacheSpec.thy ===== *)
theory CacheSpec
  imports Cache
begin

text \<open>
  Correctness of the response cache: the invariant tying \<open>items\<close>, the list and its elements
  together, the refinement of an abstract LRU list, the capacity bound, and (through the
  contract \<open>ttl_store\<close>) that a hit is always an unexpired response some \<open>Put\<close> stored for the
  same question.
\<close>

subsection \<open>Invariant and abstraction\<close>

definition cache_inv :: "DNSCache \<Rightarrow> bool" where
  "cache_inv c \<longleftrightarrow>
     distinct (map fst (c_order c)) \<and> distinct (map snd (c_order c)) \<and>
     (\<forall>x \<in> set (c_order c). fst x < c_next c) \<and>
     dom (c_items c) = snd ` set (c_order c) \<and>
     (\<forall>k e. c_items c k = Some e \<longrightarrow> (element e, k) \<in> set (c_order c))"

lemma cache_invD:
  assumes "cache_inv c"
  shows "distinct (map fst (c_order c))" "distinct (map snd (c_order c))"
    "x \<in> set (c_order c) \<Longrightarrow> fst x < c_next c"
    "dom (c_items c) = snd ` set (c_order c)"
    "c_items c k = Some e \<Longrightarrow> (element e, k) \<in> set (c_order c)"
  using assms by (auto simp: cache_inv_def)

lemma NewDNSCache_inv: "cache_inv (NewDNSCache m)"
  by (simp add: cache_inv_def NewDNSCache_def)

lemma cache_inv_reorder:
  "cache_inv c \<Longrightarrow> distinct (map fst xs) \<Longrightarrow> distinct (map snd xs) \<Longrightarrow> set xs = set (c_order c) \<Longrightarrow>
   cache_inv (c\<lparr>c_order := xs\<rparr>)"
  by (simp add: cache_inv_def)

text \<open>The abstract cache: keys with response and expiry time, most recently used first.\<close>

type_synonym lru = "(cacheKey \<times> bytes \<times> int) list"

definition entry_val :: "(cacheKey \<rightharpoonup> cacheEntry) \<Rightarrow> cacheKey \<Rightarrow> cacheKey \<times> bytes \<times> int" where
  "entry_val items k = (k, response (the (items k)), expiresAt (the (items k)))"

definition lru_of :: "DNSCache \<Rightarrow> lru" where
  "lru_of c = map (\<lambda>x. entry_val (c_items c) (snd x)) (c_order c)"

definition lru_del :: "cacheKey \<Rightarrow> lru \<Rightarrow> lru" where
  "lru_del k xs = filter (\<lambda>x. fst x \<noteq> k) xs"

definition lru_get :: "cacheKey \<Rightarrow> int \<Rightarrow> lru \<Rightarrow> bytes option \<times> lru" where
  "lru_get k now xs =
     (case map_of xs k of None \<Rightarrow> (None, xs)
      | Some (r, t) \<Rightarrow> if t < now then (None, lru_del k xs) else (Some r, (k, r, t) # lru_del k xs))"

definition lru_put :: "int \<Rightarrow> cacheKey \<Rightarrow> bytes \<Rightarrow> int \<Rightarrow> lru \<Rightarrow> lru" where
  "lru_put cap k r t xs = (k, r, t) # take (nat (cap - 1)) (lru_del k xs)"

subsection \<open>The list operations under the invariant\<close>

lemma pair_list_key:
  assumes "distinct (map fst xs)" "distinct (map snd xs)" "(i, k) \<in> set xs" "x \<in> set xs"
  shows "fst x = i \<longleftrightarrow> snd x = k"
  using assms by (metis eq_key_imp_eq_value fst_conv snd_conv distinct_map inj_onD)

lemma lst_Remove_key:
  assumes "cache_inv c" and "c_items c k = Some e"
  shows "lst_Remove (element e) (c_order c) = filter (\<lambda>x. snd x \<noteq> k) (c_order c)"
  using pair_list_key [OF cache_invD(1,2) [OF assms(1)] cache_invD(5) [OF assms]]
  by (auto simp: lst_Remove_def intro!: filter_cong)

lemma find_element:
  assumes "distinct (map fst xs)" and "(i, k) \<in> set xs"
  shows "find (\<lambda>x. fst x = i) xs = Some (i, k)"
  using assms
proof (induction xs)
  case (Cons y ys)
  then show ?case by (cases y) (auto simp: image_iff)
qed simp

lemma lst_MoveToFront_key:
  assumes "cache_inv c" and "c_items c k = Some e"
  shows "lst_MoveToFront (element e) (c_order c) = (element e, k) # filter (\<lambda>x. snd x \<noteq> k) (c_order c)"
  using find_element [OF cache_invD(1) [OF assms(1)] cache_invD(5) [OF assms]]
  by (simp add: lst_MoveToFront_def lst_Remove_key [OF assms])

lemma lst_Remove_last:
  "distinct (map fst xs) \<Longrightarrow> xs \<noteq> [] \<Longrightarrow> lst_Remove (fst (last xs)) xs = butlast xs"
  by (induction xs rule: rev_induct) (auto simp: lst_Remove_def rev_image_eqI intro!: filter_True)

lemma lru_of_filter:
  "map (\<lambda>x. entry_val items (snd x)) (filter (\<lambda>x. snd x \<noteq> k) xs) =
   lru_del k (map (\<lambda>x. entry_val items (snd x)) xs)"
  by (simp add: lru_del_def filter_map o_def entry_val_def)

lemma entry_val_upd_other:
  "k \<notin> snd ` set xs \<Longrightarrow> map (\<lambda>x. entry_val (items(k := v)) (snd x)) xs = map (\<lambda>x. entry_val items (snd x)) xs"
  by (auto simp: entry_val_def)

lemma entry_val_upd_filter:
  "map (\<lambda>x. entry_val (items(k := v)) (snd x)) (filter (\<lambda>x. snd x \<noteq> k) xs) =
   map (\<lambda>x. entry_val items (snd x)) (filter (\<lambda>x. snd x \<noteq> k) xs)"
  by (rule entry_val_upd_other) auto

lemma map_of_lru:
  assumes "cache_inv c"
  shows "map_of (lru_of c) k = map_option (\<lambda>e. (response e, expiresAt e)) (c_items c k)"
proof (cases "c_items c k")
  case None
  then have "k \<notin> snd ` set (c_order c)" using cache_invD(4) [OF assms] by auto
  with None show ?thesis
    by (auto simp: lru_of_def map_of_eq_None_iff entry_val_def image_iff)
next
  case (Some e)
  then have "(element e, k) \<in> set (c_order c)" by (rule cache_invD(5) [OF assms])
  then have "(k, response e, expiresAt e) \<in> set (lru_of c)"
    using Some by (force simp: lru_of_def entry_val_def)
  moreover have "distinct (map fst (lru_of c))"
    using cache_invD(2) [OF assms] by (simp add: lru_of_def entry_val_def o_def)
  ultimately show ?thesis using Some by simp
qed

subsection \<open>Removal\<close>

lemma remove_entry_inv:
  assumes "cache_inv c" and "c_items c k = Some e"
  shows "cache_inv (remove_entry k e c)"
  using assms
  by (auto simp: cache_inv_def remove_entry_def lst_Remove_key [OF assms] distinct_map_filter)

lemma remove_entry_lru:
  assumes "cache_inv c" and "c_items c k = Some e"
  shows "lru_of (remove_entry k e c) = lru_del k (lru_of c)"
  using lru_of_filter [of "c_items c" k "c_order c"]
  by (simp add: lru_of_def remove_entry_def lst_Remove_key [OF assms] entry_val_upd_filter)

lemma lru_del_absent:
  assumes "cache_inv c" and "c_items c k = None"
  shows "lru_del k (lru_of c) = lru_of c"
  using assms cache_invD(4) [OF assms(1)]
  by (force simp: lru_del_def lru_of_def entry_val_def filter_id_conv)

subsection \<open>Eviction\<close>

lemma evict_step:
  assumes "cache_inv c" and "c_order c \<noteq> []" and "last (c_order c) = (e, k)"
  defines "c' \<equiv> c\<lparr>c_order := lst_Remove e (c_order c), c_items := (c_items c)(k := None)\<rparr>"
  shows "c_order c' = butlast (c_order c)" and "cache_inv c'" and "lru_of c' = butlast (lru_of c)"
proof -
  have e: "e = fst (last (c_order c))" using assms(3) by simp
  show ord: "c_order c' = butlast (c_order c)"
    using lst_Remove_last [OF cache_invD(1) [OF assms(1)] assms(2)] by (simp add: c'_def e)
  obtain xs where xs: "c_order c = xs @ [(e, k)]"
    using assms(2,3) by (metis append_butlast_last_id)
  show "cache_inv c'"
    using assms(1) xs ord by (auto simp: cache_inv_def c'_def)
  have "k \<notin> snd ` set xs" using cache_invD(2) [OF assms(1)] xs by auto
  then show "lru_of c' = butlast (lru_of c)"
    using ord by (simp add: lru_of_def c'_def xs entry_val_upd_other)
qed

lemma evict_spec:
  assumes "cache_inv c"
  shows "cache_inv (evict c) \<and> lru_of (evict c) = take (nat (c_maxSize c - 1)) (lru_of c) \<and>
     c_maxSize (evict c) = c_maxSize c"
  using assms
proof (induction c rule: evict.induct)
  case (1 c)
  show ?case
  proof (cases "c_maxSize c \<le> int (length (c_order c)) \<and> c_order c \<noteq> []")
    case True
    obtain e k where ek: "last (c_order c) = (e, k)" by fastforce
    let ?c = "c\<lparr>c_order := lst_Remove e (c_order c), c_items := (c_items c)(k := None)\<rparr>"
    have un: "evict c = evict ?c" using True ek by (subst evict.simps) simp
    note st = evict_step [OF "1.prems" conjunct2 [OF True] ek]
    have len: "nat (c_maxSize c - 1) < length (lru_of c)"
      using True by (cases "c_order c") (auto simp: lru_of_def)
    from "1.IH" [OF conjunct1 [OF True] conjunct2 [OF True] ek [symmetric] refl st(2)]
    show ?thesis using st(3) len by (simp add: un take_butlast_eq)
  next
    case False
    then have "evict c = c" by (subst evict.simps) auto
    moreover have "length (lru_of c) \<le> nat (c_maxSize c - 1)"
      using False by (auto simp: lru_of_def)
    ultimately show ?thesis using "1.prems" by simp
  qed
qed

subsection \<open>Refinement of the abstract cache\<close>

lemma get_key_spec:
  assumes "cache_inv c"
  shows "cache_inv (snd (get_key k now c)) \<and>
     lru_get k now (lru_of c) = (fst (get_key k now c), lru_of (snd (get_key k now c))) \<and>
     c_maxSize (snd (get_key k now c)) = c_maxSize c"
proof (cases "c_items c k")
  case None
  then show ?thesis using assms by (simp add: get_key_def lru_get_def map_of_lru)
next
  case (Some e)
  let ?c = "c\<lparr>c_order := lst_MoveToFront (element e) (c_order c)\<rparr>"
  note mtf = lst_MoveToFront_key [OF assms Some]
  note mem = cache_invD(5) [OF assms Some]
  let ?xs = "(element e, k) # filter (\<lambda>x. snd x \<noteq> k) (c_order c)"
  have key: "fst x = element e \<longleftrightarrow> snd x = k" if "x \<in> set (c_order c)" for x
    using pair_list_key [OF cache_invD(1,2) [OF assms] mem that] .
  have "set ?xs = set (c_order c)" using mem key by (force simp: prod_eq_iff)
  moreover have "distinct (map fst ?xs)"
    by (auto simp: distinct_map_filter cache_invD(1) [OF assms] dest!: key)
  moreover have "distinct (map snd ?xs)"
    by (auto simp: distinct_map_filter cache_invD(2) [OF assms])
  ultimately have "cache_inv (c\<lparr>c_order := ?xs\<rparr>)" by (intro cache_inv_reorder [OF assms])
  then have "cache_inv ?c" by (simp only: mtf)
  moreover have "lru_of ?c = entry_val (c_items c) k # lru_del k (lru_of c)"
    by (simp add: lru_of_def mtf lru_of_filter)
  ultimately show ?thesis
    using assms Some remove_entry_inv [OF assms Some] remove_entry_lru [OF assms Some]
    by (auto simp: get_key_def lru_get_def map_of_lru entry_val_def remove_entry_def)
qed

lemma put_key_spec:
  assumes "cache_inv c"
  shows "cache_inv (put_key k r t c) \<and>
     lru_of (put_key k r t c) = lru_put (c_maxSize c) k r t (lru_of c) \<and>
     c_maxSize (put_key k r t c) = c_maxSize c"
proof -
  define c1 where "c1 = (case c_items c k of None \<Rightarrow> c | Some e \<Rightarrow> remove_entry k e c)"
  have c1: "cache_inv c1" "lru_of c1 = lru_del k (lru_of c)" "c_items c1 k = None" "c_maxSize c1 = c_maxSize c"
    using assms
    by (auto simp: c1_def remove_entry_inv remove_entry_lru lru_del_absent split: option.split)
      (auto simp: remove_entry_def)
  have ev: "cache_inv (evict c1)" "lru_of (evict c1) = take (nat (c_maxSize c - 1)) (lru_del k (lru_of c))"
    "c_maxSize (evict c1) = c_maxSize c"
    using evict_spec [OF c1(1)] c1(2,4) by auto
  have "map_of (lru_of (evict c1)) k = None"
    by (auto simp: ev(2) map_of_eq_None_iff lru_del_def dest!: in_set_takeD)
  then have fresh: "c_items (evict c1) k = None" by (simp add: map_of_lru [OF ev(1)])
  then have notin: "k \<notin> snd ` set (c_order (evict c1))" using cache_invD(4) [OF ev(1)] by auto
  let ?e = "\<lparr>response = r, expiresAt = t, element = c_next (evict c1)\<rparr>"
  let ?c = "(evict c1)\<lparr>c_order := (c_next (evict c1), k) # c_order (evict c1),
      c_next := c_next (evict c1) + 1, c_items := (c_items (evict c1))(k \<mapsto> ?e)\<rparr>"
  have put: "put_key k r t c = ?c" by (simp add: put_key_def Let_def c1_def [symmetric])
  have "cache_inv ?c"
    using ev(1) notin cache_invD(3) [OF ev(1)] by (force simp: cache_inv_def)
  moreover have "lru_of ?c = (k, r, t) # lru_of (evict c1)"
    using notin by (simp add: lru_of_def entry_val_upd_other) (simp add: entry_val_def)
  ultimately show ?thesis using ev by (simp add: put lru_put_def)
qed

subsection \<open>The contract of an expiring store\<close>

text \<open>
  What the proxies rely on: \<open>look c k\<close> is the value and the expiry time held for \<open>k\<close>. A store
  may forget entries at any time, but it never invents or alters one.
\<close>

datatype ('k, 'r) store_op = Look 'k int | Store 'k 'r int

fun run_store :: "('k \<Rightarrow> int \<Rightarrow> 'c \<Rightarrow> 'r option \<times> 'c) \<Rightarrow> ('k \<Rightarrow> 'r \<Rightarrow> int \<Rightarrow> 'c \<Rightarrow> 'c)
    \<Rightarrow> ('k, 'r) store_op list \<Rightarrow> 'c \<Rightarrow> 'c" where
  "run_store get put [] c = c"
| "run_store get put (Look k now # ops) c = run_store get put ops (snd (get k now c))"
| "run_store get put (Store k r t # ops) c = run_store get put ops (put k r t c)"

locale ttl_store =
  fixes inv :: "'c \<Rightarrow> bool"
    and look :: "'c \<Rightarrow> 'k \<Rightarrow> ('r \<times> int) option"
    and get :: "'k \<Rightarrow> int \<Rightarrow> 'c \<Rightarrow> 'r option \<times> 'c"
    and put :: "'k \<Rightarrow> 'r \<Rightarrow> int \<Rightarrow> 'c \<Rightarrow> 'c"
  assumes get_inv: "inv c \<Longrightarrow> inv (snd (get k now c))"
    and put_inv: "inv c \<Longrightarrow> inv (put k r t c)"
    and get_hit: "inv c \<Longrightarrow> fst (get k now c) = Some r \<longleftrightarrow> (\<exists>t. look c k = Some (r, t) \<and> now \<le> t)"
    and get_keeps: "inv c \<Longrightarrow> look (snd (get k now c)) k' = Some e \<Longrightarrow> look c k' = Some e"
    and put_look: "inv c \<Longrightarrow> look (put k r t c) k = Some (r, t)"
    and put_keeps: "inv c \<Longrightarrow> k' \<noteq> k \<Longrightarrow> look (put k r t c) k' = Some e \<Longrightarrow> look c k' = Some e"
begin

lemma run_inv: "inv c \<Longrightarrow> inv (run_store get put ops c)"
proof (induction ops arbitrary: c)
  case (Cons op ops)
  then show ?case by (cases op) (auto intro: get_inv put_inv)
qed simp

lemma run_provenance:
  "inv c \<Longrightarrow> look (run_store get put ops c) k = Some (r, t) \<Longrightarrow>
   look c k = Some (r, t) \<or> Store k r t \<in> set ops"
proof (induction ops arbitrary: c)
  case (Cons op ops)
  show ?case
  proof (cases op)
    case (Look k0 now)
    with Cons show ?thesis by (auto dest: get_inv get_keeps)
  next
    case (Store k0 r0 t0)
    then have "look (put k0 r0 t0 c) k = Some (r, t) \<or> Store k r t \<in> set ops"
      using Cons.IH [OF put_inv] Cons.prems by simp
    with Store Cons.prems show ?thesis
      by (cases "k = k0") (auto simp: put_look dest: put_keeps)
  qed
qed simp

lemma hit_provenance:
  assumes "inv c" and "\<And>k. look c k = None" and "fst (get k now (run_store get put ops c)) = Some r"
  shows "\<exists>t. Store k r t \<in> set ops \<and> now \<le> t"
  using assms get_hit [OF run_inv [OF assms(1)]] run_provenance [OF assms(1)] by fastforce

lemma hit_after_put: "inv c \<Longrightarrow> now \<le> t \<Longrightarrow> fst (get k now (put k r t c)) = Some r"
  by (simp add: get_hit put_inv put_look)

lemma miss_expired: "inv c \<Longrightarrow> look c k = Some (r, t) \<Longrightarrow> t < now \<Longrightarrow> fst (get k now c) = None"
  using get_hit [of c k now] by (cases "fst (get k now c)") auto

end

definition stored :: "DNSCache \<Rightarrow> cacheKey \<Rightarrow> (bytes \<times> int) option" where
  "stored c k = map_option (\<lambda>e. (response e, expiresAt e)) (c_items c k)"

lemma stored_lru: "cache_inv c \<Longrightarrow> stored c k = map_of (lru_of c) k"
  by (simp add: stored_def map_of_lru)

lemma map_of_lru_del: "map_of (lru_del k xs) k' = (if k' = k then None else map_of xs k')"
  by (induction xs) (auto simp: lru_del_def)

lemma map_of_take: "distinct (map fst xs) \<Longrightarrow> map_of (take n xs) k = Some v \<Longrightarrow> map_of xs k = Some v"
  by (auto dest!: map_of_SomeD in_set_takeD)

lemma lru_distinct: "cache_inv c \<Longrightarrow> distinct (map fst (lru_of c))"
  by (auto simp: lru_of_def entry_val_def o_def dest: cache_invD(2))

interpretation cache: ttl_store cache_inv stored get_key put_key
proof unfold_locales
  fix c :: DNSCache and k k' now r t e
  assume c: "cache_inv c"
  note g = get_key_spec [OF c, of k now] and p = put_key_spec [OF c, of k r t]
  show "cache_inv (snd (get_key k now c))" and "cache_inv (put_key k r t c)" using g p by auto
  show "fst (get_key k now c) = Some r \<longleftrightarrow> (\<exists>t. stored c k = Some (r, t) \<and> now \<le> t)"
    by (auto simp: get_key_def stored_def split: option.split)
  show "stored (snd (get_key k now c)) k' = Some e \<Longrightarrow> stored c k' = Some e"
    by (auto simp: get_key_def stored_def remove_entry_def split: option.splits if_splits)
  have look: "stored (put_key k r t c) k' = map_of (lru_put (c_maxSize c) k r t (lru_of c)) k'" for k'
    using p by (simp add: stored_lru)
  show "stored (put_key k r t c) k = Some (r, t)" by (simp add: look lru_put_def)
  show "stored (put_key k r t c) k' = Some e \<Longrightarrow> stored c k' = Some e" if "k' \<noteq> k"
  proof -
    assume "stored (put_key k r t c) k' = Some e"
    with that have "map_of (take (nat (c_maxSize c - 1)) (lru_del k (lru_of c))) k' = Some e"
      by (simp add: look lru_put_def)
    moreover have "distinct (map fst (lru_del k (lru_of c)))"
      using lru_distinct [OF c] by (simp add: lru_del_def distinct_map_filter)
    ultimately have "map_of (lru_del k (lru_of c)) k' = Some e" by (rule map_of_take [rotated])
    with that show ?thesis by (simp add: map_of_lru_del stored_lru [OF c])
  qed
qed

subsection \<open>Properties\<close>

text \<open>C9: \<open>Get\<close> and \<open>Put\<close> (the locked parts) implement an abstract LRU list: a hit moves the entry
  to the front, an expired entry is dropped, an insertion removes the old entry of the key, keeps
  the most recently used \<open>maxSize - 1\<close> others and puts the new one in front; the invariant between
  the map, the list and the element references is kept.\<close>

theorem cache_refines_lru:
  assumes "cache_inv c"
  shows "cache_inv (snd (get_key k now c)) \<and> cache_inv (put_key k r t c) \<and>
     (fst (get_key k now c), lru_of (snd (get_key k now c))) = lru_get k now (lru_of c) \<and>
     lru_of (put_key k r t c) = lru_put (c_maxSize c) k r t (lru_of c)"
  using get_key_spec [OF assms] put_key_spec [OF assms] by simp

text \<open>Runs of the two public operations, as a sequence of store operations.\<close>

datatype cache_call = CGet int bytes | CPut int bytes bytes

fun cache_run :: "unpacker \<Rightarrow> cache_call list \<Rightarrow> DNSCache \<Rightarrow> DNSCache" where
  "cache_run unpack [] c = c"
| "cache_run unpack (CGet now q # calls) c = cache_run unpack calls (snd (Get unpack now q c))"
| "cache_run unpack (CPut now q r # calls) c = cache_run unpack calls (Put unpack now q r c)"

fun store_ops :: "unpacker \<Rightarrow> cache_call \<Rightarrow> (cacheKey, bytes) store_op list" where
  "store_ops unpack (CGet now q) =
     (case extractKey unpack q of None \<Rightarrow> [] | Some k \<Rightarrow> [Look k now])"
| "store_ops unpack (CPut now q r) =
     (case extractKey unpack q of None \<Rightarrow> []
      | Some k \<Rightarrow> if minTTL unpack r \<le> 0 then [] else [Store k r (now + minTTL unpack r)])"

lemma snd_Get: "snd (Get unpack now q c) =
    (case extractKey unpack q of None \<Rightarrow> c | Some k \<Rightarrow> snd (get_key k now c))"
  by (auto simp: Get_def split: option.split prod.split)

lemma fst_Get_Some: "fst (Get unpack now q c) = Some r \<longleftrightarrow>
    (\<exists>k r0. extractKey unpack q = Some k \<and> fst (get_key k now c) = Some r0 \<and> r = rewrite_id q r0)"
  by (auto simp: Get_def split: option.split prod.split)

lemma run_store_append:
  "run_store get put (xs @ ys) c = run_store get put ys (run_store get put xs c)"
proof (induction xs arbitrary: c)
  case (Cons x xs)
  then show ?case by (cases x) simp_all
qed simp

lemma cache_run_store:
  "cache_run unpack calls c = run_store get_key put_key (concat (map (store_ops unpack) calls)) c"
proof (induction calls arbitrary: c)
  case (Cons call calls)
  then show ?case
    by (cases call) (auto simp: run_store_append snd_Get Put_def Let_def split: option.split)
qed simp

lemma cache_run_inv: "cache_inv (cache_run unpack calls (NewDNSCache m))"
  by (simp add: cache_run_store cache.run_inv NewDNSCache_inv)

text \<open>C10: a cache hit is never invented and never stale: whatever calls came before, a response
  returned for a query was stored by an earlier \<open>Put\<close> for the same name (up to case), type and
  class, its time to live had not run out, and only its transaction id was changed.\<close>

theorem cache_hit_provenance:
  assumes "fst (Get unpack now query (cache_run unpack calls (NewDNSCache m))) = Some r"
  shows "\<exists>t0 q0 r0. CPut t0 q0 r0 \<in> set calls \<and> extractKey unpack q0 = extractKey unpack query \<and>
     0 < minTTL unpack r0 \<and> now \<le> t0 + minTTL unpack r0 \<and> r = rewrite_id query r0"
proof -
  from assms obtain k r0 where k: "extractKey unpack query = Some k" "r = rewrite_id query r0"
    and hit: "fst (get_key k now (run_store get_key put_key (concat (map (store_ops unpack) calls)) (NewDNSCache m))) = Some r0"
    by (auto simp: fst_Get_Some cache_run_store)
  have "stored (NewDNSCache m) k' = None" for k' by (simp add: stored_def NewDNSCache_def)
  from cache.hit_provenance [OF NewDNSCache_inv this hit]
  obtain t call where t: "now \<le> t" "call \<in> set calls" "Store k r0 t \<in> set (store_ops unpack call)" by auto
  then show ?thesis using k by (cases call) (fastforce split: option.splits if_splits)+
qed

text \<open>C32: a stored response is found again: right after \<open>Put\<close>, \<open>Get\<close> for any query with the same
  key returns it until its time to live runs out, with the transaction id of the new query.\<close>

theorem cache_get_after_put:
  assumes "cache_inv c" and "extractKey unpack q = Some k" and "extractKey unpack q' = Some k"
    and "0 < minTTL unpack r" and "now' \<le> now + minTTL unpack r"
  shows "fst (Get unpack now' q' (Put unpack now q r c)) = Some (rewrite_id q' r)"
  using assms cache.hit_after_put [OF assms(1,5)] by (simp add: fst_Get_Some Put_def Let_def)

text \<open>The returned response is the stored one except for its first two bytes, which are those of
  the query.\<close>

lemma rewrite_id_only_id:
  assumes "2 \<le> length query" and "2 \<le> length resp"
  shows "take 2 (rewrite_id query resp) = take 2 query \<and>
     drop 2 (rewrite_id query resp) = drop 2 resp \<and> length (rewrite_id query resp) = length resp"
proof -
  obtain a b qs x y rs where "query = a # b # qs" "resp = x # y # rs"
    using assms by (auto simp: numeral_2_eq_2 Suc_le_length_iff)
  then show ?thesis by (simp add: rewrite_id_def)
qed

lemma lru_length: "length (lru_of c) = length (c_order c)"
  by (simp add: lru_of_def)

lemma lru_get_length: "length (snd (lru_get k now xs)) \<le> length xs"
proof (cases "map_of xs k")
  case (Some v)
  then have "length (lru_del k xs) < length xs"
    unfolding lru_del_def by (intro length_filter_less [of "(k, v)"]) (auto dest: map_of_SomeD)
  with Some show ?thesis by (cases v) (simp add: lru_get_def lru_del_def)
qed (simp add: lru_get_def)

lemma run_capacity:
  assumes "cache_inv c" and "int (length (c_order c)) \<le> max 1 (c_maxSize c)"
  shows "int (length (c_order (run_store get_key put_key ops c))) \<le> max 1 (c_maxSize c)"
  using assms
proof (induction ops arbitrary: c)
  case (Cons op ops)
  have get: "length (lru_of (snd (get_key k now c))) \<le> length (lru_of c)" for k now
    using get_key_spec [OF Cons.prems(1), of k now] lru_get_length [of k now "lru_of c"] by simp
  have put: "int (length (lru_of (put_key k r t c))) \<le> max 1 (c_maxSize c)" for k r t
    using put_key_spec [OF Cons.prems(1), of k r t] by (auto simp: lru_put_def)
  show ?case
  proof (cases op)
    case (Look k now)
    have "int (length (c_order (snd (get_key k now c)))) \<le> max 1 (c_maxSize c)"
      using get [of k now] Cons.prems(2) by (simp add: lru_length)
    with Look show ?thesis
      using Cons.IH [of "snd (get_key k now c)"] get_key_spec [OF Cons.prems(1), of k now] by simp
  next
    case (Store k r t)
    have "int (length (c_order (put_key k r t c))) \<le> max 1 (c_maxSize c)"
      using put [of k r t] by (simp only: lru_length)
    with Store show ?thesis
      using Cons.IH [of "put_key k r t c"] put_key_spec [OF Cons.prems(1), of k r t] by simp
  qed
qed simp

text \<open>The cache never holds more than \<open>max 1 maxSize\<close> entries, after any sequence of calls; the
  map and the list always have the same number of entries.\<close>

lemma cache_capacity:
  "int (length (c_order (cache_run unpack calls (NewDNSCache m)))) \<le> max 1 m \<and>
   card (dom (c_items (cache_run unpack calls (NewDNSCache m)))) =
     length (c_order (cache_run unpack calls (NewDNSCache m)))"
proof
  show "int (length (c_order (cache_run unpack calls (NewDNSCache m)))) \<le> max 1 m"
    using run_capacity [OF NewDNSCache_inv, of m] by (simp add: cache_run_store NewDNSCache_def)
  let ?c = "cache_run unpack calls (NewDNSCache m)"
  have "card (snd ` set (c_order ?c)) = length (map snd (c_order ?c))"
    using distinct_card [OF cache_invD(2) [OF cache_run_inv]] by simp
  then show "card (dom (c_items ?c)) = length (c_order ?c)"
    by (simp add: cache_invD(4) [OF cache_run_inv])
qed

definition ttls :: "dns_msg \<Rightarrow> uint32 list" where
  "ttls msg = map rr_Ttl (filter (\<lambda>r. \<not> is_OPT r) (Answer msg @ Ns msg @ Extra msg))"

lemma min_loop_append: "min_loop (xs @ ys) acc = min_loop ys (min_loop xs acc)"
  by (induction xs acc rule: min_loop.induct) auto

lemma min_loop_False:
  "min_loop rs (m, False) = (fold min (map rr_Ttl (filter (\<lambda>r. \<not> is_OPT r) rs)) m, False)"
proof (induction rs arbitrary: m)
  case (Cons r rs)
  have "(if rr_Ttl r < m then rr_Ttl r else m) = min (rr_Ttl r) m" by (auto simp: min_def)
  with Cons show ?case by (simp split: if_splits)
qed simp

lemma min_loop_True:
  "min_loop rs (m, True) =
     (case map rr_Ttl (filter (\<lambda>r. \<not> is_OPT r) rs) of [] \<Rightarrow> (m, True)
      | t # ts \<Rightarrow> (Min (set (t # ts)), False))"
  by (induction rs arbitrary: m) (simp_all add: min_loop_False Min.set_eq_fold del: list.set)

text \<open>The time to live of a response is the smallest TTL over all records of its three sections
  other than OPT, in nanoseconds, without overflow; a response without such records is not cached.\<close>

lemma minTTL_is_min:
  "minTTL unpack raw =
     (case unpack raw of None \<Rightarrow> 0
      | Some msg \<Rightarrow> if ttls msg = [] then 0 else uint (Min (set (ttls msg))) * 10 ^ 9)"
proof (cases "unpack raw")
  case (Some msg)
  have bound: "i64 (uint w * 10 ^ 9) = uint w * 10 ^ 9" for w :: uint32
  proof (rule i64_id)
    have "0 \<le> uint w * 10 ^ 9" by simp
    then show "- (2 ^ 63) \<le> uint w * 10 ^ 9" by (rule order_trans [rotated]) simp
    show "uint w * 10 ^ 9 < 2 ^ 63" using uint_lt2p [of w] by simp
  qed
  have "min_loop (Extra msg) (min_loop (Ns msg) (min_loop (Answer msg) (0, True))) =
      (case ttls msg of [] \<Rightarrow> (0, True) | t # ts \<Rightarrow> (Min (set (t # ts)), False))"
    unfolding min_loop_append [symmetric] append_assoc ttls_def by (rule min_loop_True)
  then show ?thesis
    unfolding minTTL_def Some option.case by (cases "ttls msg") (simp_all add: bound [simplified])
qed (simp add: minTTL_def)

subsection \<open>Instances\<close>

text \<open>
  A stand-in for the DNS library on two-byte messages: the second byte is the TTL and the name is
  fixed. The properties above are applied to it.
\<close>

definition ex_unpack :: unpacker where
  "ex_unpack raw =
     (if length raw < 2 then None
      else Some \<lparr>Question = [\<lparr>q_Name = ''Example.COM.'', q_Qtype = 1, q_Qclass = 1\<rparr>],
                 Answer = [RR_OPT 0, RR_other (of_nat (unat (raw ! 1)))], Ns = [], Extra = []\<rparr>)"

definition ex_key :: cacheKey where
  "ex_key = \<lparr>k_Name = ''example.com.'', k_Type = 1, k_Class = 1\<rparr>"

lemma ex_key_lower: "ToLower ''Example.COM.'' = ''example.com.''"
  by code_simp

lemma ex_extract [simp]: "extractKey ex_unpack [a, b] = Some ex_key"
  by (simp add: extractKey_def ex_unpack_def ex_key_lower ex_key_def)

lemma ex_minTTL [simp]: "minTTL ex_unpack [7, 60] = 60 * 10 ^ 9"
  by (simp add: minTTL_def ex_unpack_def Let_def)

theorem cache_refines_lru_witness:
  "cache_inv (put_key ex_key [7, 60] 100 (NewDNSCache 1)) \<and>
   lru_of (put_key ex_key [7, 60] 100 (NewDNSCache 1)) = lru_put 1 ex_key [7, 60] 100 []"
  using cache_refines_lru [OF NewDNSCache_inv, of ex_key 0 1 "[7, 60]" 100]
  by (simp add: lru_of_def NewDNSCache_def)

theorem cache_get_after_put_witness:
  "fst (Get ex_unpack 61 [1, 2] (Put ex_unpack 1 [9, 9] [7, 60] (NewDNSCache 0))) = Some [1, 2]"
  using cache_get_after_put [OF NewDNSCache_inv, of ex_unpack "[9, 9]" ex_key "[1, 2]" "[7, 60]" 61 1 0]
  by (simp add: rewrite_id_def)

theorem cache_hit_provenance_witness:
  "\<exists>t0 q0 r0. CPut t0 q0 r0 \<in> set [CPut 1 [9, 9] [7, 60]] \<and> 61 \<le> t0 + minTTL ex_unpack r0"
proof -
  have "fst (Get ex_unpack 61 [1, 2] (cache_run ex_unpack [CPut 1 [9, 9] [7, 60]] (NewDNSCache 5))) = Some [1, 2]"
    by (simp add: fst_Get_Some Put_def Let_def cache.hit_after_put NewDNSCache_inv rewrite_id_def)
  from cache_hit_provenance [OF this] show ?thesis by blast
qed

lemma rewrite_id_only_id_witness: "take 2 (rewrite_id [1, 2, 3] [7, 60, 5]) = [1, 2]"
  using rewrite_id_only_id [of "[1, 2, 3]" "[7, 60, 5]"] by simp

end
