(* ===== verification/Proxy.thy ===== *)
theory Proxy
  imports PoolHealth CacheSpec
begin

text \<open>
  \<open>proxy.go\<close>: what the UDP and the TCP proxy do with one client query. The exchange with the
  upstream resolvers is the same code in both, and is written once, over the operations of the
  pool it calls; the contract \<open>upstream_pool\<close> says what it relies on.
\<close>

subsection \<open>The upstream exchange\<close>

text \<open>
  One exchange meets two networks (the second is used by the retry), two supplies of random
  draws, and measures two latencies; the cache reads the clock at two instants.
\<close>

record fwd_env =
  fe_draws1 :: "nat \<Rightarrow> nat"
  fe_draws2 :: "nat \<Rightarrow> nat"
  fe_net1 :: transport
  fe_net2 :: transport
  fe_lat1 :: int
  fe_lat2 :: int
  fe_now_get :: int
  fe_now_put :: int

definition exchange ::
  "((nat \<Rightarrow> nat) \<Rightarrow> 'p \<Rightarrow> 'r outcome \<times> 'p) \<Rightarrow> ('r \<Rightarrow> 'p \<Rightarrow> unit outcome \<times> 'p) \<Rightarrow>
   ('r \<Rightarrow> int \<Rightarrow> 'p \<Rightarrow> unit outcome \<times> 'p) \<Rightarrow> ('r \<Rightarrow> 'p \<Rightarrow> bool outcome \<times> 'p) \<Rightarrow>
   (transport \<Rightarrow> bytes \<Rightarrow> 'r \<Rightarrow> 'p \<Rightarrow> goerr + bytes) \<Rightarrow>
   fwd_env \<Rightarrow> bytes \<Rightarrow> 'p \<Rightarrow> bytes option outcome \<times> 'p" where
  "exchange getNext markSent markSuccess markFailure send env data p =
     and_then (getNext (fe_draws1 env) p) (\<lambda>resolver p.
     and_then (markSent resolver p) (\<lambda>_ p.
     case send (fe_net1 env) data resolver p of
       Inr resp \<Rightarrow>
         and_then (markSuccess resolver (fe_lat1 env) p) (\<lambda>_ p. (Done (Some resp), p))
     | Inl _ \<Rightarrow>
         and_then (markFailure resolver p) (\<lambda>_ p.
         and_then (getNext (fe_draws2 env) p) (\<lambda>retry p.
         if retry \<noteq> resolver then
           and_then (markSent retry p) (\<lambda>_ p.
           case send (fe_net2 env) data retry p of
             Inl _ \<Rightarrow> and_then (markFailure retry p) (\<lambda>_ p. (Done None, p))
           | Inr resp \<Rightarrow>
               and_then (markSuccess retry (fe_lat2 env) p) (\<lambda>_ p. (Done (Some resp), p)))
         else (Done None, p)))))"

definition pool_exchange :: "fwd_env \<Rightarrow> bytes \<Rightarrow> pool \<Rightarrow> bytes option outcome \<times> pool" where
  "pool_exchange = exchange GetNext MarkSent MarkSuccessWithLatency MarkFailure SendQuery"

subsection \<open>The UDP proxy\<close>

text \<open>
  \<open>forward\<close>: the datagram written back to the client, if any. A cache is present or not as
  the proxy was configured.
\<close>

definition after_exchange :: "unpacker \<Rightarrow> fwd_env \<Rightarrow> bytes \<Rightarrow> DNSCache option \<Rightarrow> pool
    \<Rightarrow> bytes option outcome \<times> DNSCache option \<times> pool" where
  "after_exchange unpack env data cache p =
     (case pool_exchange env data p of
        (Done None, p') \<Rightarrow> (Done None, cache, p')
      | (Done (Some resp), p') \<Rightarrow>
          (Done (Some resp), map_option (Put unpack (fe_now_put env) data resp) cache, p')
      | (Blocked, p') \<Rightarrow> (Blocked, cache, p')
      | (Panic, p') \<Rightarrow> (Panic, cache, p'))"

definition forward :: "unpacker \<Rightarrow> fwd_env \<Rightarrow> bytes \<Rightarrow> DNSCache option \<Rightarrow> pool
    \<Rightarrow> bytes option outcome \<times> DNSCache option \<times> pool" where
  "forward unpack env data cache p =
     (case cache of None \<Rightarrow> after_exchange unpack env data None p
      | Some c \<Rightarrow>
          (case Get unpack (fe_now_get env) data c of
             (Some resp, c') \<Rightarrow> (Done (Some resp), Some c', p)
           | (None, c') \<Rightarrow> after_exchange unpack env data (Some c') p))"

subsection \<open>The TCP proxy\<close>

text \<open>
  \<open>binary.BigEndian\<close> on two bytes; \<open>uint16(len(resp))\<close> keeps the low 16 bits.
\<close>

definition Uint16 :: "byte \<Rightarrow> byte \<Rightarrow> nat" where
  "Uint16 hi lo = unat hi * 256 + unat lo"

definition PutUint16 :: "nat \<Rightarrow> bytes" where
  "PutUint16 n = (let v = n mod 65536 in [of_nat (v div 256), of_nat (v mod 256)])"

text \<open>
  \<open>read_query\<close> is the framing part of \<open>handle\<close> on the bytes the client sends before the
  deadline; \<open>None\<close> is one of its early returns.
\<close>

definition read_query :: "bytes \<Rightarrow> bytes option" where
  "read_query input =
     (case input of
        hi # lo # rest \<Rightarrow>
          (let msgLen = Uint16 hi lo
           in if msgLen = 0 \<or> dnsBufferSize < msgLen then None
              else if length rest < msgLen then None
              else Some (take msgLen rest))
      | _ \<Rightarrow> None)"

definition write_reply :: "bytes \<Rightarrow> bytes" where
  "write_reply resp = PutUint16 (length resp) @ resp"

text \<open>\<open>handle\<close>: the bytes written to the connection before it is closed.\<close>

definition handle :: "unpacker \<Rightarrow> fwd_env \<Rightarrow> bytes \<Rightarrow> DNSCache option \<Rightarrow> pool
    \<Rightarrow> bytes outcome \<times> DNSCache option \<times> pool" where
  "handle unpack env input cache p =
     (case read_query input of None \<Rightarrow> (Done [], cache, p)
      | Some data \<Rightarrow>
          (case forward unpack env data cache p of
             (Done None, cp) \<Rightarrow> (Done [], cp)
           | (Done (Some resp), cp) \<Rightarrow> (Done (write_reply resp), cp)
           | (Blocked, cp) \<Rightarrow> (Blocked, cp)
           | (Panic, cp) \<Rightarrow> (Panic, cp)))"

subsection \<open>The contract of the pool\<close>

text \<open>
  \<open>owed p r\<close> is the number of queries counted as sent to \<open>r\<close> and not yet as answered or failed,
  as the 64-bit counters have it.
\<close>

definition reply_of :: "(goerr + bytes) \<Rightarrow> 'r \<Rightarrow> 'r \<Rightarrow> (goerr + bytes) \<Rightarrow> bytes option" where
  "reply_of first r r' second =
     (case first of Inr resp \<Rightarrow> Some resp
      | Inl _ \<Rightarrow> if r' = r then None else (case second of Inr resp \<Rightarrow> Some resp | Inl _ \<Rightarrow> None))"

text \<open>Who only sends needs a pool that gives a resolver; who also counts needs the rest.\<close>

locale resolver_source =
  fixes ready :: "'p \<Rightarrow> bool"
    and known :: "'p \<Rightarrow> 'r set"
    and getNext :: "(nat \<Rightarrow> nat) \<Rightarrow> 'p \<Rightarrow> 'r outcome \<times> 'p"
  assumes getNext_law: "ready p \<Longrightarrow> \<exists>r. getNext d p = (Done r, p) \<and> r \<in> known p"

locale upstream_pool = resolver_source ready known getNext
  for ready :: "'p \<Rightarrow> bool" and known :: "'p \<Rightarrow> 'r set" and getNext +
  fixes owed :: "'p \<Rightarrow> 'r \<Rightarrow> uint64"
    and markSent :: "'r \<Rightarrow> 'p \<Rightarrow> unit outcome \<times> 'p"
    and markSuccess :: "'r \<Rightarrow> int \<Rightarrow> 'p \<Rightarrow> unit outcome \<times> 'p"
    and markFailure :: "'r \<Rightarrow> 'p \<Rightarrow> bool outcome \<times> 'p"
    and send :: "transport \<Rightarrow> bytes \<Rightarrow> 'r \<Rightarrow> 'p \<Rightarrow> goerr + bytes"
  assumes markSent_law: "ready p \<Longrightarrow> r \<in> known p \<Longrightarrow> \<exists>q. markSent r p = (Done (), q) \<and> ready q \<and>
      known q = known p \<and> owed q = (owed p)(r := owed p r + 1) \<and> (\<forall>n d r. send n d r q = send n d r p)"
    and markSuccess_law: "ready p \<Longrightarrow> r \<in> known p \<Longrightarrow> \<exists>q. markSuccess r l p = (Done (), q) \<and> ready q \<and>
      known q = known p \<and> owed q = (owed p)(r := owed p r - 1) \<and> (\<forall>n d r. send n d r q = send n d r p)"
    and markFailure_law: "ready p \<Longrightarrow> r \<in> known p \<Longrightarrow> \<exists>q b. markFailure r p = (Done b, q) \<and> ready q \<and>
      known q = known p \<and> owed q = (owed p)(r := owed p r - 1) \<and> (\<forall>n d r. send n d r q = send n d r p)"
begin

lemma sent_answered:
  assumes "ready p" and "r \<in> known p"
  shows "\<exists>p1 q. markSent r p = (Done (), p1) \<and> markSuccess r l p1 = (Done (), q) \<and> ready q \<and>
    known q = known p \<and> owed q = owed p \<and> (\<forall>n d r. send n d r p1 = send n d r p)"
proof -
  obtain p1 where p1: "markSent r p = (Done (), p1)" "ready p1" "known p1 = known p"
    "owed p1 = (owed p)(r := owed p r + 1)" "\<forall>n d r. send n d r p1 = send n d r p"
    using markSent_law [OF assms] by blast
  obtain q where "markSuccess r l p1 = (Done (), q)" "ready q" "known q = known p1"
    "owed q = (owed p1)(r := owed p1 r - 1)"
    using markSuccess_law [OF p1(2)] assms(2) p1(3) by metis
  with p1 show ?thesis by (intro exI [of _ p1] exI [of _ q]) simp
qed

lemma sent_lost:
  assumes "ready p" and "r \<in> known p"
  shows "\<exists>p1 q b. markSent r p = (Done (), p1) \<and> markFailure r p1 = (Done b, q) \<and> ready q \<and>
    known q = known p \<and> owed q = owed p \<and> (\<forall>n d r. send n d r p1 = send n d r p) \<and>
    (\<forall>n d r. send n d r q = send n d r p)"
proof -
  obtain p1 where p1: "markSent r p = (Done (), p1)" "ready p1" "known p1 = known p"
    "owed p1 = (owed p)(r := owed p r + 1)" "\<forall>n d r. send n d r p1 = send n d r p"
    using markSent_law [OF assms] by blast
  obtain q b where "markFailure r p1 = (Done b, q)" "ready q" "known q = known p1"
    "owed q = (owed p1)(r := owed p1 r - 1)" "\<forall>n d r. send n d r q = send n d r p1"
    using markFailure_law [OF p1(2)] assms(2) p1(3) by metis
  with p1 show ?thesis by (intro exI [of _ p1] exI [of _ q] exI [of _ b]) simp
qed

text \<open>
  The exchange returns; the pool stays ready, knows the same resolvers, and has no query
  outstanding that was not outstanding before. The reply is the first resolver's answer, or
  the retry's when the first failed and the draw made after that gave another resolver.
\<close>

lemma exchange_law:
  assumes "ready p"
  shows "\<exists>q r r'. getNext (fe_draws1 env) p = (Done r, p) \<and> r \<in> known p \<and> r' \<in> known p \<and>
    fst (getNext (fe_draws2 env) (snd (markFailure r (snd (markSent r p))))) = Done r' \<and>
    exchange getNext markSent markSuccess markFailure send env data p =
      (Done (reply_of (send (fe_net1 env) data r p) r r' (send (fe_net2 env) data r' p)), q) \<and>
    ready q \<and> known q = known p \<and> owed q = owed p"
proof -
  obtain r where r: "getNext (fe_draws1 env) p = (Done r, p)" "r \<in> known p"
    using getNext_law [OF assms] by blast
  obtain p1 p2 b where p2: "markSent r p = (Done (), p1)" "markFailure r p1 = (Done b, p2)"
    "ready p2" "known p2 = known p" "owed p2 = owed p" "\<forall>n d r. send n d r p1 = send n d r p"
    "\<forall>n d r. send n d r p2 = send n d r p"
    using sent_lost [OF assms r(2)] by blast
  obtain r' where r': "getNext (fe_draws2 env) p2 = (Done r', p2)" "r' \<in> known p2"
    using getNext_law [OF p2(3)] by metis
  show ?thesis
  proof (cases "send (fe_net1 env) data r p")
    case (Inr resp)
    obtain q where "markSuccess r (fe_lat1 env) p1 = (Done (), q)" "ready q" "known q = known p" "owed q = owed p"
      using sent_answered [OF assms r(2), of "fe_lat1 env"] p2(1) by auto
    with r p2 r' Inr show ?thesis
      by (intro exI [of _ q] exI [of _ r] exI [of _ r']) (simp add: exchange_def reply_of_def)
  next
    case (Inl e)
    obtain q where "(if r' \<noteq> r then
          and_then (markSent r' p2) (\<lambda>_ p. case send (fe_net2 env) data r' p of
             Inl _ \<Rightarrow> and_then (markFailure r' p) (\<lambda>_ p. (Done None, p))
           | Inr resp \<Rightarrow> and_then (markSuccess r' (fe_lat2 env) p) (\<lambda>_ p. (Done (Some resp), p)))
        else (Done None, p2)) =
        (Done (reply_of (send (fe_net1 env) data r p) r r' (send (fe_net2 env) data r' p)), q)"
      "ready q" "known q = known p" "owed q = owed p"
      using sent_lost [OF p2(3) r'(2)] sent_answered [OF p2(3) r'(2), of "fe_lat2 env"] p2(3-7) Inl
      by (cases "send (fe_net2 env) data r' p"; cases "r' = r") (auto simp: reply_of_def)
    with r p2 r' Inl show ?thesis
      by (intro exI [of _ q] exI [of _ r] exI [of _ r']) (simp add: exchange_def)
  qed
qed

end

end
