(* ===== verification/ProxySpec.thy ===== *)
theory ProxySpec
  imports Proxy
begin

text \<open>
  Correctness of the query path: the resolver pool satisfies the contract \<open>upstream_pool\<close>, so
  every exchange of the proxies returns and settles what it counted as sent; what the client
  gets on each path, from the cache or from upstream; and the framing of the TCP side.
\<close>

subsection \<open>The pool provides the contract\<close>

definition pool_ready :: "pool \<Rightarrow> bool" where
  "pool_ready p \<longleftrightarrow> pool_inv p \<and> p_mu p = Readers 0"

definition pool_known :: "pool \<Rightarrow> Resolver set" where
  "pool_known p = dom (p_stats p)"

definition pool_owed :: "pool \<Rightarrow> Resolver \<Rightarrow> uint64" where
  "pool_owed p r = (let s = map_get new_stats (p_stats p) r in st_sent s - st_ok s - st_fail s)"

lemma MarkSent_free:
  assumes "p_mu p = Readers 0" and "p_stats p r = Some s"
  shows "MarkSent r p = (Done (), p\<lparr>p_stats := (p_stats p)(r \<mapsto> s\<lparr>st_sent := st_sent s + 1\<rparr>)\<rparr>)"
  using assms by (simp add: MarkSent_eq)

lemma SendQuery_cong: "p_doh q = p_doh p \<Longrightarrow> SendQuery net data r q = SendQuery net data r p"
  by (simp add: SendQuery_def)

lemma pool_owed_upd:
  assumes "p_stats q = (p_stats p)(r \<mapsto> s')"
  shows "pool_owed q = (pool_owed p)(r := st_sent s' - st_ok s' - st_fail s')"
  using assms by (auto simp: pool_owed_def map_get_def fun_eq_iff)

lemma pool_owed_Some: "p_stats p r = Some s \<Longrightarrow> pool_owed p r = st_sent s - st_ok s - st_fail s"
  by (simp add: pool_owed_def map_get_Some)

lemma pool_update_law:
  assumes "pool_ready p" and "p_stats p r = Some s" and "pool_inv q"
    and "p_mu q = p_mu p" and "p_stats q = (p_stats p)(r \<mapsto> s')" and "p_doh q = p_doh p"
    and "st_sent s' - st_ok s' - st_fail s' = st_sent s - st_ok s - st_fail s + d"
  shows "pool_ready q \<and> pool_known q = pool_known p \<and>
    pool_owed q = (pool_owed p)(r := pool_owed p r + d) \<and> (\<forall>n d r. SendQuery n d r q = SendQuery n d r p)"
proof (intro conjI allI)
  show "pool_ready q" using assms(1,3,4) by (simp add: pool_ready_def)
  show "pool_known q = pool_known p" using assms(2,5) by (auto simp: pool_known_def)
  show "pool_owed q = (pool_owed p)(r := pool_owed p r + d)"
    by (simp only: pool_owed_upd [OF assms(5)] pool_owed_Some [OF assms(2)] assms(7))
qed (rule SendQuery_cong [OF assms(6)])

interpretation source: resolver_source pool_ready pool_known GetNext
proof unfold_locales
  fix p d
  assume "pool_ready p"
  then show "\<exists>r. GetNext d p = (Done r, p) \<and> r \<in> pool_known p"
    using GetNext_member [of p 0 d] pool_inv_cache(2) [of p] pool_invD(2) [of p]
    by (fastforce simp: pool_ready_def pool_known_def)
qed

interpretation upstream: upstream_pool pool_ready pool_known GetNext pool_owed MarkSent
  MarkSuccessWithLatency MarkFailure SendQuery
proof unfold_locales
  fix p r
  assume p: "pool_ready p" "r \<in> pool_known p"
  then obtain s where s: "p_stats p r = Some s" by (auto simp: pool_known_def)
  define q where "q = snd (MarkSent r p)"
  have q: "MarkSent r p = (Done (), q)" "p_mu q = p_mu p" "p_doh q = p_doh p"
    "p_stats q = (p_stats p)(r \<mapsto> s\<lparr>st_sent := st_sent s + 1\<rparr>)"
    using p(1) s by (simp_all add: q_def pool_ready_def MarkSent_free)
  have "pool_inv q" using p(1) MarkSent_inv by (simp add: q_def pool_ready_def)
  from pool_update_law [OF p(1) s this q(2,4,3), of 1] q(1)
  show "\<exists>q. MarkSent r p = (Done (), q) \<and> pool_ready q \<and> pool_known q = pool_known p \<and>
      pool_owed q = (pool_owed p)(r := pool_owed p r + 1) \<and> (\<forall>n d r. SendQuery n d r q = SendQuery n d r p)"
    by simp
next
  fix p r l
  assume p: "pool_ready p" "r \<in> pool_known p"
  then obtain s where s: "p_stats p r = Some s" by (auto simp: pool_known_def)
  define q where "q = snd (MarkSuccessWithLatency r l p)"
  have q: "MarkSuccessWithLatency r l p = (Done (), q)" "p_mu q = p_mu p" "p_doh q = p_doh p"
    "p_stats q = (p_stats p)(r \<mapsto> s\<lparr>st_ok := st_ok s + 1, st_latency := ewma (st_latency s) l\<rparr>)"
    using p(1) s by (simp_all add: q_def pool_ready_def MarkSuccess_free)
  have "pool_inv q" using p(1) MarkSuccess_inv by (simp add: q_def pool_ready_def)
  from pool_update_law [OF p(1) s this q(2,4,3), of "- 1"] q(1)
  show "\<exists>q. MarkSuccessWithLatency r l p = (Done (), q) \<and> pool_ready q \<and> pool_known q = pool_known p \<and>
      pool_owed q = (pool_owed p)(r := pool_owed p r - 1) \<and> (\<forall>n d r. SendQuery n d r q = SendQuery n d r p)"
    by simp
next
  fix p r
  assume p: "pool_ready p" "r \<in> pool_known p"
  then obtain s where s: "p_stats p r = Some s" by (auto simp: pool_known_def)
  define q where "q = snd (MarkFailure r p)"
  have marked: "\<exists>b. MarkFailure r p = (Done b, q)"
    using p(1) s by (simp add: q_def pool_ready_def MarkFailure_free split: if_split)
      (metis)
  have q: "p_mu q = p_mu p" "p_doh q = p_doh p"
    "p_stats q = (p_stats p)(r \<mapsto> s\<lparr>st_fail := st_fail s + 1\<rparr>)"
    using p(1) s by (simp_all add: q_def pool_ready_def MarkFailure_free)
  have "pool_inv q" using p(1) MarkFailure_inv by (simp add: q_def pool_ready_def)
  from pool_update_law [OF p(1) s this q(1,3,2), of "- 1"] marked
  show "\<exists>q b. MarkFailure r p = (Done b, q) \<and> pool_ready q \<and> pool_known q = pool_known p \<and>
      pool_owed q = (pool_owed p)(r := pool_owed p r - 1) \<and> (\<forall>n d r. SendQuery n d r q = SendQuery n d r p)"
    by auto
qed

subsection \<open>One query\<close>

lemma pool_exchange_law:
  assumes "pool_ready p"
  shows "\<exists>q r r'. GetNext (fe_draws1 env) p = (Done r, p) \<and>
    fst (GetNext (fe_draws2 env) (snd (MarkFailure r (snd (MarkSent r p))))) = Done r' \<and> pool_exchange env data p =
      (Done (reply_of (SendQuery (fe_net1 env) data r p) r r' (SendQuery (fe_net2 env) data r' p)), q) \<and>
    pool_ready q \<and> pool_known q = pool_known p \<and> pool_owed q = pool_owed p"
  unfolding pool_exchange_def using upstream.exchange_law [OF assms, of env data] by blast

lemma after_exchange_Done:
  assumes "pool_exchange env data p = (Done reply, q)"
  shows "after_exchange unpack env data cache p =
     (Done reply, case reply of None \<Rightarrow> cache
        | Some resp \<Rightarrow> map_option (Put unpack (fe_now_put env) data resp) cache, q)"
  using assms by (simp add: after_exchange_def split: option.split)

lemma forward_settled:
  assumes "pool_ready p"
  shows "\<exists>reply cache' q. forward unpack env data cache p = (Done reply, cache', q) \<and>
     pool_ready q \<and> pool_known q = pool_known p \<and> pool_owed q = pool_owed p"
proof -
  have after: "\<exists>reply cache' q. after_exchange unpack env data c p = (Done reply, cache', q) \<and>
      pool_ready q \<and> pool_known q = pool_known p \<and> pool_owed q = pool_owed p" for c
    using pool_exchange_law [OF assms, of env data] after_exchange_Done by metis
  show ?thesis
  proof (cases cache)
    case None
    with after show ?thesis by (simp add: forward_def)
  next
    case (Some c)
    with after assms show ?thesis
      by (cases "Get unpack (fe_now_get env) data c"; cases "fst (Get unpack (fe_now_get env) data c)")
        (auto simp: forward_def)
  qed
qed

text \<open>C14: a query is always carried to its end: started on a well-formed, unlocked pool, \<open>forward\<close>
  neither panics nor waits, leaves such a pool, and settles every query it counted as sent with
  exactly one success or failure of the same resolver.\<close>

theorem forward_settles:
  assumes "pool_inv p" and "p_mu p = Readers 0"
  shows "\<exists>reply cache' q. forward unpack env data cache p = (Done reply, cache', q) \<and>
     pool_inv q \<and> p_mu q = Readers 0 \<and> dom (p_stats q) = dom (p_stats p) \<and> pool_owed q = pool_owed p"
  using forward_settled [of p unpack env data cache] assms by (simp add: pool_ready_def pool_known_def)

text \<open>C15: what the client is told on a cache miss (or without a cache): the answer of the resolver
  \<open>GetNext\<close> chose; if that exchange failed, the answer of the resolver drawn once the failure was counted, provided
  it is a different one; and nothing otherwise. An answer is put into the cache.\<close>

theorem forward_miss:
  assumes "pool_inv p" and "p_mu p = Readers 0"
    and "\<forall>c. cache = Some c \<longrightarrow> fst (Get unpack (fe_now_get env) data c) = None"
  shows "\<exists>r r' reply q. GetNext (fe_draws1 env) p = (Done r, p) \<and>
     fst (GetNext (fe_draws2 env) (snd (MarkFailure r (snd (MarkSent r p))))) = Done r' \<and>
     reply = (case SendQuery (fe_net1 env) data r p of Inr resp \<Rightarrow> Some resp
              | Inl _ \<Rightarrow> if r' = r then None
                        else (case SendQuery (fe_net2 env) data r' p of Inr resp \<Rightarrow> Some resp | Inl _ \<Rightarrow> None)) \<and>
     forward unpack env data cache p =
       (Done reply,
        map_option (\<lambda>c. let c' = snd (Get unpack (fe_now_get env) data c)
                        in case reply of None \<Rightarrow> c' | Some resp \<Rightarrow> Put unpack (fe_now_put env) data resp c') cache,
        q)"
proof -
  have ready: "pool_ready p" using assms by (simp add: pool_ready_def)
  obtain q r r' where r: "GetNext (fe_draws1 env) p = (Done r, p)"
    "fst (GetNext (fe_draws2 env) (snd (MarkFailure r (snd (MarkSent r p))))) = Done r'"
    and ex: "pool_exchange env data p =
      (Done (reply_of (SendQuery (fe_net1 env) data r p) r r' (SendQuery (fe_net2 env) data r' p)), q)"
    using pool_exchange_law [OF ready, of env data] by blast
  note after = after_exchange_Done [OF ex, of unpack]
  let ?reply = "reply_of (SendQuery (fe_net1 env) data r p) r r' (SendQuery (fe_net2 env) data r' p)"
  show ?thesis
  proof (cases cache)
    case None
    with r after show ?thesis
      by (intro exI [of _ r] exI [of _ r'] exI [of _ ?reply] exI [of _ q])
        (simp add: forward_def reply_of_def split: option.split)
  next
    case (Some c)
    then obtain c' where "Get unpack (fe_now_get env) data c = (None, c')"
      using assms(3) by (metis prod.collapse)
    with Some r after show ?thesis
      by (intro exI [of _ r] exI [of _ r'] exI [of _ ?reply] exI [of _ q])
        (simp add: forward_def reply_of_def Let_def split: option.split)
  qed
qed

text \<open>A cache hit is answered from the cache alone: no resolver is selected, and the pool, its
  counters included, stays as it was, whatever state it is in.\<close>

lemma forward_hit:
  assumes "fst (Get unpack (fe_now_get env) data c) = Some resp"
  shows "forward unpack env data (Some c) p =
     (Done (Some resp), Some (snd (Get unpack (fe_now_get env) data c)), p)"
  using assms by (cases "Get unpack (fe_now_get env) data c") (simp add: forward_def)

text \<open>After an \<open>UpdateResolvers\<close> the proxy is down for every query its cache does not answer: the
  worker waits for ever and the client gets no reply.\<close>

lemma forward_frozen:
  assumes "p_mu p = Readers 0"
    and "\<forall>c. cache = Some c \<longrightarrow> fst (Get unpack (fe_now_get env) data c) = None"
  shows "fst (forward unpack env data cache (snd (UpdateResolvers ordered p))) = Blocked"
proof -
  have "p_mu (snd (UpdateResolvers ordered p)) = Writer" using assms(1) by (simp add: UpdateResolvers_free)
  then have ex: "pool_exchange env data (snd (UpdateResolvers ordered p)) = (Blocked, snd (UpdateResolvers ordered p))"
    by (simp add: pool_exchange_def exchange_def GetNext_def)
  show ?thesis
  proof (cases cache)
    case None
    with ex show ?thesis by (simp add: forward_def after_exchange_def)
  next
    case (Some c)
    then obtain c' where "Get unpack (fe_now_get env) data c = (None, c')"
      using assms(2) by (metis prod.collapse)
    with Some ex show ?thesis by (simp add: forward_def after_exchange_def)
  qed
qed

subsection \<open>The TCP framing\<close>

lemma PutUint16_bytes: "PutUint16 n = [of_nat (n mod 65536 div 256), of_nat (n mod 256)]"
  by (simp add: PutUint16_def Let_def mod_mod_cancel)

lemma byte_less: "unat (b :: byte) < 256"
  using unsigned_less [of b, where 'a = nat] by simp

lemma Uint16_less: "Uint16 hi lo < 65536"
  using byte_less [of hi] byte_less [of lo] by (simp add: Uint16_def)

lemma Uint16_PutUint16: "Uint16 (PutUint16 n ! 0) (PutUint16 n ! 1) = n mod 65536"
proof -
  have "unat (of_nat (n mod 65536 div 256) :: byte) = n mod 65536 div 256"
    by (simp add: unat_of_nat less_mult_imp_div_less)
  moreover have "unat (of_nat (n mod 256) :: byte) = n mod 65536 mod 256"
    by (simp add: unat_of_nat mod_mod_cancel)
  ultimately show ?thesis
    by (simp add: PutUint16_bytes Uint16_def)
qed

lemma PutUint16_Uint16: "PutUint16 (Uint16 hi lo) = [hi, lo]"
proof -
  have "unat lo < 256" and "unat hi < 256"
    by (rule byte_less)+
  then have "Uint16 hi lo mod 65536 = Uint16 hi lo" "Uint16 hi lo div 256 = unat hi" "Uint16 hi lo mod 256 = unat lo"
    using Uint16_less [of hi lo] by (simp_all add: Uint16_def)
  then show ?thesis by (simp add: PutUint16_bytes)
qed

lemma write_reply_split: "write_reply d = PutUint16 (length d) ! 0 # PutUint16 (length d) ! 1 # d"
  by (simp add: write_reply_def PutUint16_bytes)

text \<open>C31: the TCP side reads exactly the framed messages: \<open>handle\<close> takes \<open>d\<close> as the query if and
  only if the client sent \<open>d\<close> behind its own two-byte length, possibly with more after it, and \<open>d\<close>
  has between 1 and 4096 bytes; zero-length, oversized and cut-off messages close the connection.\<close>

theorem read_query_frames:
  "read_query input = Some d \<longleftrightarrow>
     d \<noteq> [] \<and> length d \<le> dnsBufferSize \<and> (\<exists>rest. input = write_reply d @ rest)"
proof
  assume r: "read_query input = Some d"
  then obtain hi lo rest where input: "input = hi # lo # rest"
    by (auto simp: read_query_def split: list.splits)
  with r have d: "Uint16 hi lo \<noteq> 0" "Uint16 hi lo \<le> dnsBufferSize" "Uint16 hi lo \<le> length rest"
    "d = take (Uint16 hi lo) rest"
    by (auto simp: read_query_def Let_def split: if_splits)
  then have "length d = Uint16 hi lo" by simp
  then have "input = write_reply d @ drop (Uint16 hi lo) rest"
    using d(4) input by (simp add: write_reply_def PutUint16_Uint16)
  then show "d \<noteq> [] \<and> length d \<le> dnsBufferSize \<and> (\<exists>rest. input = write_reply d @ rest)"
    using d \<open>length d = Uint16 hi lo\<close> by auto
next
  assume "d \<noteq> [] \<and> length d \<le> dnsBufferSize \<and> (\<exists>rest. input = write_reply d @ rest)"
  then show "read_query input = Some d"
    using Uint16_PutUint16 [of "length d"]
    by (auto simp: read_query_def write_reply_split dnsBufferSize_def)
qed

definition read_reply :: "bytes \<Rightarrow> bytes" where
  "read_reply out = take (Uint16 (out ! 0) (out ! 1)) (drop 2 out)"

text \<open>The frame of a reply announces its length modulo 65536; a client that reads as many bytes
  as announced gets the whole reply if and only if it is shorter than 65536 bytes.\<close>

lemma write_reply_truncates:
  "Uint16 (write_reply resp ! 0) (write_reply resp ! 1) = length resp mod 65536 \<and>
   (read_reply (write_reply resp) = resp \<longleftrightarrow> length resp < 65536)"
  using Uint16_PutUint16 [of "length resp"]
  by (auto simp: read_reply_def write_reply_split take_all_iff)

definition cached_small :: "DNSCache \<Rightarrow> bool" where
  "cached_small c \<longleftrightarrow> (\<forall>k e. c_items c k = Some e \<longrightarrow> length (response e) \<le> dnsBufferSize)"

lemma evict_items: "c_items (evict c) k = Some e \<Longrightarrow> c_items c k = Some e"
proof (induction c rule: evict.induct)
  case (1 c)
  show ?case
  proof (cases "c_maxSize c \<le> int (length (c_order c)) \<and> c_order c \<noteq> []")
    case True
    obtain e' k' where last: "last (c_order c) = (e', k')" by fastforce
    let ?c' = "c\<lparr>c_order := lst_Remove e' (c_order c), c_items := (c_items c)(k' := None)\<rparr>"
    have "c_items (evict ?c') k = Some e" using 1(2) True last by (simp add: evict.simps [of c])
    with 1(1) True last have "c_items ?c' k = Some e" by fastforce
    then show ?thesis by (simp split: if_splits)
  next
    case False
    then show ?thesis using 1 by (subst (asm) (2) evict.simps) (auto split: if_splits)
  qed
qed

lemma Put_small:
  assumes "cached_small c" and "length resp \<le> dnsBufferSize"
  shows "cached_small (Put unpack now q resp c)"
  using assms
  by (auto simp: Put_def put_key_def cached_small_def Let_def remove_entry_def
      dest!: evict_items split: option.splits if_splits)

lemma Get_small:
  assumes "cached_small c"
  shows "cached_small (snd (Get unpack now q c))"
    and "fst (Get unpack now q c) = Some r \<Longrightarrow> length r \<le> dnsBufferSize"
  using assms
  by (auto simp: Get_def get_key_def cached_small_def remove_entry_def rewrite_id_def
      split: option.splits if_splits)

lemma SendQuery_small: "\<not> p_doh p \<Longrightarrow> SendQuery net data r p = Inr resp \<Longrightarrow> length resp \<le> dnsBufferSize"
  by (auto simp: SendQuery_def intro: sendQueryUDP_bound)

lemma reply_small:
  "\<not> p_doh p \<Longrightarrow> reply_of (SendQuery n1 data r p) r r' (SendQuery n2 data r' p) = Some resp \<Longrightarrow>
   length resp \<le> dnsBufferSize"
  by (auto simp: reply_of_def intro: SendQuery_small split: sum.splits if_splits)

lemma forward_small:
  assumes "pool_ready p" and "\<not> p_doh p" and "\<forall>c. cache = Some c \<longrightarrow> cached_small c"
    and "forward unpack env data cache p = (Done reply, cache', q)"
  shows "(\<forall>resp. reply = Some resp \<longrightarrow> length resp \<le> dnsBufferSize) \<and> (\<forall>c. cache' = Some c \<longrightarrow> cached_small c)"
proof -
  obtain q r r' where "pool_exchange env data p =
      (Done (reply_of (SendQuery (fe_net1 env) data r p) r r' (SendQuery (fe_net2 env) data r' p)), q)"
    using pool_exchange_law [OF assms(1), of env data] by blast
  note after = after_exchange_Done [OF this, of unpack] and small = reply_small [OF assms(2)]
  show ?thesis
  proof (cases cache)
    case None
    with assms(4) after show ?thesis by (auto simp: forward_def dest: small split: option.splits)
  next
    case (Some c)
    with assms(3) have "cached_small c" by simp
    from Get_small [OF this, of unpack "fe_now_get env" data] Some assms(4) after show ?thesis
      by (cases "Get unpack (fe_now_get env) data c"; cases "fst (Get unpack (fe_now_get env) data c)")
        (auto simp: forward_def dest: small intro: Put_small split: option.splits)
  qed
qed

text \<open>With UDP upstreams the truncation of the frame cannot show: if everything cached so far fits
  the 4096-byte buffer, then so does everything cached after a TCP query, and what the client is
  sent is nothing or a frame that reads back as the whole reply.\<close>

lemma handle_exact_over_udp:
  assumes "pool_inv p" and "p_mu p = Readers 0" and "\<not> p_doh p"
    and "\<forall>c. cache = Some c \<longrightarrow> cached_small c"
  shows "\<exists>out cache' q. handle unpack env input cache p = (Done out, cache', q) \<and>
     (out = [] \<or> (\<exists>resp. out = write_reply resp \<and> read_reply out = resp)) \<and>
     (\<forall>c. cache' = Some c \<longrightarrow> cached_small c)"
proof (cases "read_query input")
  case None
  with assms(4) show ?thesis by (simp add: handle_def)
next
  case (Some data)
  have ready: "pool_ready p" using assms(1,2) by (simp add: pool_ready_def)
  have "fst (forward unpack env data cache p) \<noteq> Blocked \<and> fst (forward unpack env data cache p) \<noteq> Panic"
    using forward_settled [OF ready] by (metis fst_conv outcome.distinct(1,3))
  then obtain reply cache' q where f: "forward unpack env data cache p = (Done reply, cache', q)"
    by (cases "forward unpack env data cache p"; cases "fst (forward unpack env data cache p)") auto
  have "read_reply (write_reply resp) = resp" if "reply = Some resp" for resp
    using forward_small [OF ready assms(3,4) f] that Uint16_PutUint16 [of "length resp"]
    by (simp add: read_reply_def write_reply_split dnsBufferSize_def)
  with forward_small [OF ready assms(3,4) f] Some f show ?thesis
    by (cases reply) (auto simp: handle_def)
qed

subsection \<open>Instances\<close>

definition ex_env :: fwd_env where
  "ex_env = \<lparr>fe_draws1 = \<lambda>_. 0, fe_draws2 = \<lambda>_. 1, fe_net1 = ex_dead_net, fe_net2 = ex_net [7, 60],
     fe_lat1 = 20000000, fe_lat2 = 30000000, fe_now_get = 5, fe_now_put = 6\<rparr>"

definition ex_cache :: DNSCache where
  "ex_cache = Put ex_unpack 0 [1, 2] [7, 60] (NewDNSCache 2)"

lemma ex_cache_hit: "fst (Get ex_unpack 5 [3, 4] ex_cache) = Some [3, 4]"
  by (simp add: ex_cache_def Put_def put_key_def NewDNSCache_def Let_def evict.simps Get_def get_key_def rewrite_id_def)

lemma ex_cache_small: "cached_small ex_cache"
  unfolding ex_cache_def by (rule Put_small) (simp_all add: cached_small_def NewDNSCache_def dnsBufferSize_def)

lemma ex_env_simps [simp]:
  "fe_draws1 ex_env = (\<lambda>_. 0)" "fe_net1 ex_env = ex_dead_net" "fe_net2 ex_env = ex_net [7, 60]"
  "fe_now_get ex_env = 5"
  by (simp_all add: ex_env_def)

lemma ex_send [simp]:
  "SendQuery ex_dead_net q r ex_pool = Inl (fmtErr ''unreachable'')"
  "SendQuery (ex_net [7, 60]) q r ex_pool = Inr [7, 60]"
  by (simp_all add: SendQuery_def sendQueryUDP_def ex_net_def ex_dead_net_def dnsBufferSize_def)

theorem forward_settles_witness:
  "\<exists>reply cache' q. forward ex_unpack ex_env [1, 2] (Some ex_cache) ex_pool = (Done reply, cache', q) \<and>
     pool_inv q \<and> pool_owed q = pool_owed ex_pool"
  using forward_settles [OF ex_pool_inv ex_pool_simps(1), of ex_unpack ex_env "[1, 2]" "Some ex_cache"] by blast

theorem forward_miss_witness:
  "\<exists>r r' q. GetNext (\<lambda>_. 0) ex_pool = (Done r, ex_pool) \<and>
     forward ex_unpack ex_env [1, 2] None ex_pool = (Done (if r' = r then None else Some [7, 60]), None, q)"
  using forward_miss [OF ex_pool_inv ex_pool_simps(1), of None ex_unpack ex_env "[1, 2]"]
  by (auto simp del: ex_pool_simps(2-) split: if_splits)

lemma forward_hit_witness:
  "forward ex_unpack ex_env [3, 4] (Some ex_cache) ex_pool =
     (Done (Some [3, 4]), Some (snd (Get ex_unpack 5 [3, 4] ex_cache)), ex_pool)"
  using forward_hit [of ex_unpack ex_env "[3, 4]" ex_cache "[3, 4]" ex_pool] ex_cache_hit by simp

lemma forward_frozen_witness:
  "fst (forward ex_unpack ex_env [1, 2] None (snd (UpdateResolvers [ex_r2] ex_pool))) = Blocked"
  using forward_frozen [OF ex_pool_simps(1), of None] by simp

lemma handle_exact_over_udp_witness:
  "\<exists>out cache' q. handle ex_unpack ex_env [0, 2, 3, 4] (Some ex_cache) ex_pool = (Done out, cache', q) \<and>
     (out = [] \<or> (\<exists>resp. out = write_reply resp \<and> read_reply out = resp))"
  using handle_exact_over_udp [OF ex_pool_inv ex_pool_simps(1), of "Some ex_cache" ex_unpack ex_env "[0, 2, 3, 4]"]
    ex_cache_small ex_pool_simps(5) by auto

end
