(* ===== verification/Workers.thy ===== *)
theory Workers
  imports ProxySpec
begin

text \<open>
  \<open>proxy.go\<close>, the UDP loop and its workers under interleaving. The pool's methods and the cache's
  are atomic steps (each takes its lock and gives it back), but \<open>MarkSent\<close>, which adds to the counter
  after it has given the lock back, is two; between the steps the workers run in any
  order. \<open>GetNext\<close> takes the read lock once for each thing it reads and is one step here: it changes nothing, and
  what it reads only matters for which resolver it gives. A worker is where \<open>forward\<close> stands with its query; the loop holds a datagram while it waits
  for a slot of the semaphore.
\<close>

definition maxWorkers :: nat where
  "maxWorkers = 256"

datatype worker =
    W_lookup bytes
  | W_pick bytes
  | W_picked bytes Resolver
  | W_sending bytes Resolver
  | W_wait bytes Resolver
  | W_failed bytes Resolver
  | W_repick bytes Resolver
  | W_repicked bytes Resolver
  | W_resending bytes Resolver
  | W_rewait bytes Resolver
  | W_refailed bytes Resolver
  | W_answered bytes Resolver bytes
  | W_store bytes bytes
  | W_write bytes bytes

record udp_proxy =
  u_pool :: pool
  u_cache :: "DNSCache option"
  u_workers :: "worker multiset"
  u_held :: "bytes option"
  u_queryCount :: uint64
  u_replies :: "(bytes \<times> bytes) list"

definition NewUDPProxy :: "pool \<Rightarrow> DNSCache option \<Rightarrow> udp_proxy" where
  "NewUDPProxy pool cache = \<lparr>u_pool = pool, u_cache = cache, u_workers = {#}, u_held = None,
     u_queryCount = 0, u_replies = []\<rparr>"

abbreviation goes :: "worker \<Rightarrow> worker \<Rightarrow> udp_proxy \<Rightarrow> udp_proxy" where
  "goes w w' u \<equiv> u\<lparr>u_workers := add_mset w' (u_workers u - {#w#})\<rparr>"

text \<open>One step of \<open>forward\<close> on the whole state; \<open>None\<close> when the worker has to wait for the pool's lock.\<close>

definition on_pool :: "'a outcome \<times> pool \<Rightarrow> ('a \<Rightarrow> worker) \<Rightarrow> worker \<Rightarrow> udp_proxy \<Rightarrow> udp_proxy option" where
  "on_pool m next w u =
     (case m of (Done a, p) \<Rightarrow> Some (goes w (next a) (u\<lparr>u_pool := p\<rparr>)) | _ \<Rightarrow> None)"

fun worker_step :: "unpacker \<Rightarrow> int \<Rightarrow> (nat \<Rightarrow> nat) \<Rightarrow> transport \<Rightarrow> int \<Rightarrow> worker \<Rightarrow> udp_proxy \<Rightarrow> udp_proxy option" where
  "worker_step unpack now draws net lat (W_lookup data) u =
     (case u_cache u of None \<Rightarrow> Some (goes (W_lookup data) (W_pick data) u)
      | Some c \<Rightarrow>
          (case Get unpack now data c of
             (Some resp, c') \<Rightarrow> Some (goes (W_lookup data) (W_write data resp) (u\<lparr>u_cache := Some c'\<rparr>))
           | (None, c') \<Rightarrow> Some (goes (W_lookup data) (W_pick data) (u\<lparr>u_cache := Some c'\<rparr>))))"
| "worker_step unpack now draws net lat (W_pick data) u =
     on_pool (GetNext draws (u_pool u)) (W_picked data) (W_pick data) u"
| "worker_step unpack now draws net lat (W_picked data r) u =
     on_pool (find_stats r (u_pool u)) (\<lambda>_. W_sending data r) (W_picked data r) u"
| "worker_step unpack now draws net lat (W_sending data r) u =
     on_pool (add_sent r (u_pool u)) (\<lambda>_. W_wait data r) (W_sending data r) u"
| "worker_step unpack now draws net lat (W_wait data r) u =
     Some (goes (W_wait data r) (case SendQuery net data r (u_pool u) of
             Inl _ \<Rightarrow> W_failed data r | Inr resp \<Rightarrow> W_answered data r resp) u)"
| "worker_step unpack now draws net lat (W_failed data r) u =
     on_pool (MarkFailure r (u_pool u)) (\<lambda>_. W_repick data r) (W_failed data r) u"
| "worker_step unpack now draws net lat (W_repick data r) u =
     (case GetNext draws (u_pool u) of
        (Done retry, p) \<Rightarrow>
          if retry \<noteq> r then Some (goes (W_repick data r) (W_repicked data retry) (u\<lparr>u_pool := p\<rparr>))
          else Some (u\<lparr>u_pool := p, u_workers := u_workers u - {#W_repick data r#}\<rparr>)
      | _ \<Rightarrow> None)"
| "worker_step unpack now draws net lat (W_repicked data r) u =
     on_pool (find_stats r (u_pool u)) (\<lambda>_. W_resending data r) (W_repicked data r) u"
| "worker_step unpack now draws net lat (W_resending data r) u =
     on_pool (add_sent r (u_pool u)) (\<lambda>_. W_rewait data r) (W_resending data r) u"
| "worker_step unpack now draws net lat (W_rewait data r) u =
     Some (goes (W_rewait data r) (case SendQuery net data r (u_pool u) of
             Inl _ \<Rightarrow> W_refailed data r | Inr resp \<Rightarrow> W_answered data r resp) u)"
| "worker_step unpack now draws net lat (W_refailed data r) u =
     (case MarkFailure r (u_pool u) of
        (Done _, p) \<Rightarrow> Some (u\<lparr>u_pool := p, u_workers := u_workers u - {#W_refailed data r#}\<rparr>)
      | _ \<Rightarrow> None)"
| "worker_step unpack now draws net lat (W_answered data r resp) u =
     on_pool (MarkSuccessWithLatency r lat (u_pool u)) (\<lambda>_. W_store data resp) (W_answered data r resp) u"
| "worker_step unpack now draws net lat (W_store data resp) u =
     Some (goes (W_store data resp) (W_write data resp)
       (u\<lparr>u_cache := map_option (Put unpack now data resp) (u_cache u)\<rparr>))"
| "worker_step unpack now draws net lat (W_write data resp) u =
     Some (u\<lparr>u_workers := u_workers u - {#W_write data resp#}, u_replies := u_replies u @ [(data, resp)]\<rparr>)"

text \<open>
  The loop reads a datagram (and counts it) when it holds none, and starts a worker for the one it
  holds when a slot is free. The pool's health check runs beside it.
\<close>

inductive udp_step :: "udp_proxy \<Rightarrow> udp_proxy \<Rightarrow> bool" where
  read: "u_held u = None \<Longrightarrow> udp_step u (u\<lparr>u_held := Some (take dnsBufferSize dgram), u_queryCount := u_queryCount u + 1\<rparr>)"
| spawn: "u_held u = Some data \<Longrightarrow> size (u_workers u) < maxWorkers \<Longrightarrow>
    udp_step u (u\<lparr>u_held := None, u_workers := add_mset (W_lookup data) (u_workers u)\<rparr>)"
| work: "w \<in># u_workers u \<Longrightarrow> worker_step unpack now draws net lat w u = Some u' \<Longrightarrow> udp_step u u'"
| check: "set order \<subseteq> {..<length (p_resolvers (u_pool u))} \<Longrightarrow>
    HealthCheck mkquery nets order (u_pool u) = (Done (), p) \<Longrightarrow> udp_step u (u\<lparr>u_pool := p\<rparr>)"

inductive udp_reachable :: "udp_proxy \<Rightarrow> bool" where
  start: "resolvers \<noteq> [] \<Longrightarrow> udp_reachable (NewUDPProxy (NewResolverPool resolvers mode doh) cache)"
| step: "udp_reachable u \<Longrightarrow> udp_step u u' \<Longrightarrow> udp_reachable u'"

subsection \<open>Accounting\<close>

text \<open>The workers that have counted a query to \<open>r\<close> as sent and not yet as answered or failed.\<close>

fun outstanding :: "Resolver \<Rightarrow> worker \<Rightarrow> bool" where
  "outstanding r (W_wait _ r') = (r' = r)"
| "outstanding r (W_failed _ r') = (r' = r)"
| "outstanding r (W_rewait _ r') = (r' = r)"
| "outstanding r (W_refailed _ r') = (r' = r)"
| "outstanding r (W_answered _ r' _) = (r' = r)"
| "outstanding r _ = False"

fun uses :: "worker \<Rightarrow> Resolver set" where
  "uses (W_picked _ r) = {r}" | "uses (W_sending _ r) = {r}" | "uses (W_resending _ r) = {r}" | "uses (W_wait _ r) = {r}" | "uses (W_failed _ r) = {r}"
| "uses (W_repicked _ r) = {r}" | "uses (W_rewait _ r) = {r}" | "uses (W_refailed _ r) = {r}"
| "uses (W_answered _ r _) = {r}" | "uses _ = {}"

definition in_flight :: "worker multiset \<Rightarrow> Resolver \<Rightarrow> nat" where
  "in_flight W r = size (filter_mset (outstanding r) W)"

text \<open>The pool's books agree with the workers that use it; they may belong to several proxies.\<close>

definition accounts :: "pool \<Rightarrow> worker multiset \<Rightarrow> bool" where
  "accounts p W \<longleftrightarrow> pool_ready p \<and> (\<forall>w \<in># W. uses w \<subseteq> pool_known p) \<and>
     (\<forall>r. pool_owed p r = of_nat (in_flight W r))"

abbreviation work_inv :: "udp_proxy \<Rightarrow> bool" where
  "work_inv u \<equiv> accounts (u_pool u) (u_workers u)"

definition udp_inv :: "udp_proxy \<Rightarrow> bool" where
  "udp_inv u \<longleftrightarrow> work_inv u \<and> size (u_workers u) \<le> maxWorkers"

lemma in_flight_add: "in_flight (add_mset w W) r = in_flight W r + of_bool (outstanding r w)"
  by (simp add: in_flight_def)

lemma in_flight_remove:
  assumes "w \<in># W"
  shows "of_nat (in_flight (W - {#w#}) r) = (of_nat (in_flight W r) - of_bool (outstanding r w) :: uint64)"
proof -
  obtain W' where "W = add_mset w W'" using assms by (auto dest: multi_member_split)
  then show ?thesis by (simp add: in_flight_add)
qed

lemma in_flight_goes:
  assumes "w \<in># W"
  shows "of_nat (in_flight (add_mset w' (W - {#w#})) r) =
    (of_nat (in_flight W r) - of_bool (outstanding r w) + of_bool (outstanding r w') :: uint64)"
  by (simp only: in_flight_add of_nat_add in_flight_remove [OF assms] of_nat_of_bool)

lemma accountsD:
  assumes "accounts p W"
  shows "pool_ready p" "w \<in># W \<Longrightarrow> uses w \<subseteq> pool_known p" "pool_owed p r = of_nat (in_flight W r)"
  using assms by (auto simp: accounts_def)

lemma udp_invD:
  assumes "udp_inv u"
  shows "pool_ready (u_pool u)" "size (u_workers u) \<le> maxWorkers"
    "w \<in># u_workers u \<Longrightarrow> uses w \<subseteq> pool_known (u_pool u)"
    "pool_owed (u_pool u) r = of_nat (in_flight (u_workers u) r)"
  using assms by (auto simp: udp_inv_def accounts_def)

lemma goes_inv:
  assumes "work_inv u" and w: "w \<in># u_workers u" and "pool_ready (u_pool u')" "pool_known (u_pool u') = pool_known (u_pool u)"
    and "uses w' \<subseteq> pool_known (u_pool u)" and "u_workers u' = add_mset w' (u_workers u - {#w#})"
    and "\<And>r. pool_owed (u_pool u') r = pool_owed (u_pool u) r - of_bool (outstanding r w) + of_bool (outstanding r w')"
  shows "work_inv u'"
  unfolding accounts_def
proof (intro conjI ballI allI)
  show "uses x \<subseteq> pool_known (u_pool u')" if "x \<in># u_workers u'" for x
    using that accountsD(2) [OF assms(1)] assms(4-6) by (auto dest: in_diffD)
  show "pool_owed (u_pool u') r = of_nat (in_flight (u_workers u') r)" for r
    unfolding assms(6,7) in_flight_goes [OF w] accountsD(3) [OF assms(1)] ..
qed (rule assms(3))

lemma leaves_inv:
  assumes "work_inv u" and w: "w \<in># u_workers u" and "pool_ready (u_pool u')" "pool_known (u_pool u') = pool_known (u_pool u)"
    and "u_workers u' = u_workers u - {#w#}"
    and "\<And>r. pool_owed (u_pool u') r = pool_owed (u_pool u) r - of_bool (outstanding r w)"
  shows "work_inv u'"
  unfolding accounts_def
proof (intro conjI ballI allI)
  show "uses x \<subseteq> pool_known (u_pool u')" if "x \<in># u_workers u'" for x
    using that accountsD(2) [OF assms(1)] assms(4,5) by (auto dest: in_diffD)
  show "pool_owed (u_pool u') r = of_nat (in_flight (u_workers u') r)" for r
    unfolding assms(5,6) in_flight_remove [OF w] accountsD(3) [OF assms(1)] ..
qed (rule assms(3))

lemma on_pool_Some: "on_pool m next w u = Some u' \<longleftrightarrow> (\<exists>a p. m = (Done a, p) \<and> u' = goes w (next a) (u\<lparr>u_pool := p\<rparr>))"
  by (cases m; cases "fst m") (auto simp: on_pool_def)

lemma MarkSent_parts:
  assumes "pool_ready p"
  shows "r \<in> pool_known p \<Longrightarrow> find_stats r p = (Done (), p)" and "r \<in> pool_known p \<Longrightarrow> MarkSent r p = add_sent r p"
    and "find_stats r p = (Done (), q) \<Longrightarrow> q = p"
  using assms by (auto simp: MarkSent_eq find_stats_def add_sent_def pool_ready_def pool_known_def split: option.splits)

lemma pool_ops_ready:
  assumes "pool_ready p"
  shows "GetNext d p = (Done r, q) \<Longrightarrow> q = p \<and> r \<in> pool_known p"
    and "MarkSent r p = (Done (), q) \<Longrightarrow> r \<in> pool_known p \<Longrightarrow> pool_ready q \<and> pool_known q = pool_known p \<and> pool_owed q = (pool_owed p)(r := pool_owed p r + 1)"
    and "find_stats r p = (Done (), q) \<Longrightarrow> q = p"
    and "add_sent r p = (Done (), q) \<Longrightarrow> r \<in> pool_known p \<Longrightarrow> pool_ready q \<and> pool_known q = pool_known p \<and> pool_owed q = (pool_owed p)(r := pool_owed p r + 1)"
    and "MarkSuccessWithLatency r l p = (Done (), q) \<Longrightarrow> r \<in> pool_known p \<Longrightarrow> pool_ready q \<and> pool_known q = pool_known p \<and> pool_owed q = (pool_owed p)(r := pool_owed p r - 1)"
    and "MarkFailure r p = (Done b, q) \<Longrightarrow> r \<in> pool_known p \<Longrightarrow> pool_ready q \<and> pool_known q = pool_known p \<and> pool_owed q = (pool_owed p)(r := pool_owed p r - 1)"
  using source.getNext_law [OF assms, of d] upstream.markSent_law [OF assms, of r]
    upstream.markSuccess_law [OF assms, of r l] upstream.markFailure_law [OF assms, of r] MarkSent_parts [OF assms, of r]
  by auto

lemma on_pool_inv:
  assumes "work_inv u" and "w \<in># u_workers u" and "on_pool m next w u = Some u'"
    and "\<And>a p. m = (Done a, p) \<Longrightarrow> pool_ready p \<and> pool_known p = pool_known (u_pool u) \<and>
      uses (next a) \<subseteq> pool_known (u_pool u) \<and>
      (\<forall>r. pool_owed p r = pool_owed (u_pool u) r - of_bool (outstanding r w) + of_bool (outstanding r (next a)))"
  shows "work_inv u'"
proof -
  obtain a p where m: "m = (Done a, p)" and u': "u' = goes w (next a) (u\<lparr>u_pool := p\<rparr>)"
    using assms(3) by (auto simp: on_pool_Some)
  show ?thesis
    by (rule goes_inv [OF assms(1,2), of _ "next a"]) (use assms(4) [OF m] in \<open>simp_all add: u'\<close>)
qed

lemma repick_inv:
  assumes "work_inv u" and w: "W_repick data r \<in># u_workers u"
    and "worker_step unpack now draws net lat (W_repick data r) u = Some u'"
  shows "work_inv u'"
proof -
  note ready = accountsD(1) [OF assms(1)]
  obtain retry p where op: "GetNext draws (u_pool u) = (Done retry, p)"
    using assms(3) by (cases "GetNext draws (u_pool u)"; cases "fst (GetNext draws (u_pool u))") auto
  note p = pool_ops_ready(1) [OF ready op]
  show ?thesis
  proof (cases "retry = r")
    case True
    with assms(3) op have "u' = u\<lparr>u_pool := p, u_workers := u_workers u - {#W_repick data r#}\<rparr>" by simp
    then show ?thesis using p ready by (intro leaves_inv [OF assms(1) w]) simp_all
  next
    case False
    with assms(3) op have "u' = goes (W_repick data r) (W_repicked data retry) (u\<lparr>u_pool := p\<rparr>)" by simp
    then show ?thesis using p ready by (intro goes_inv [OF assms(1) w, where w' = "W_repicked data retry"]) simp_all
  qed
qed

lemma refailed_inv:
  assumes "work_inv u" and w: "W_refailed data r \<in># u_workers u"
    and "worker_step unpack now draws net lat (W_refailed data r) u = Some u'"
  shows "work_inv u'"
proof -
  obtain b p where op: "MarkFailure r (u_pool u) = (Done b, p)"
    using assms(3) by (cases "MarkFailure r (u_pool u)"; cases "fst (MarkFailure r (u_pool u))") auto
  with assms(3) have "u' = u\<lparr>u_pool := p, u_workers := u_workers u - {#W_refailed data r#}\<rparr>" by simp
  then show ?thesis
    using pool_ops_ready(6) [OF accountsD(1) [OF assms(1)] op] accountsD(2) [OF assms(1) w]
    by (intro leaves_inv [OF assms(1) w]) simp_all
qed

lemma worker_step_inv:
  assumes "work_inv u" and w: "w \<in># u_workers u" and "worker_step unpack now draws net lat w u = Some u'"
  shows "work_inv u'"
proof -
  note ready = accountsD(1) [OF assms(1)] and known = accountsD(2) [OF assms(1) w]
  note ops = pool_ops_ready [OF ready] and pool = on_pool_inv [OF assms(1) w]
    and go = goes_inv [OF assms(1) w]
  show ?thesis
  proof (cases w)
    case (W_lookup data)
    then show ?thesis
      using assms(3) ready
      by (cases "u_cache u"; cases "Get unpack now data (the (u_cache u))"; cases "fst (Get unpack now data (the (u_cache u)))")
        (auto intro!: go)
  next
    case (W_pick data)
    then show ?thesis using assms(3) ready by (auto intro!: pool dest: ops(1))
  next
    case (W_picked data r)
    then show ?thesis
      using assms(3) known ready by (intro pool [of "find_stats r (u_pool u)" "\<lambda>_. W_sending data r"]) (auto dest: ops(3))
  next
    case (W_sending data r)
    then show ?thesis
      using assms(3) known ops(4) [where r = r]
      by (intro pool [of "add_sent r (u_pool u)" "\<lambda>_. W_wait data r"]) simp_all
  next
    case (W_failed data r)
    then show ?thesis
      using assms(3) known ops(6) [where r = r]
      by (intro pool [of "MarkFailure r (u_pool u)" "\<lambda>_. W_repick data r"]) simp_all
  next
    case (W_repicked data r)
    then show ?thesis
      using assms(3) known ready by (intro pool [of "find_stats r (u_pool u)" "\<lambda>_. W_resending data r"]) (auto dest: ops(3))
  next
    case (W_resending data r)
    then show ?thesis
      using assms(3) known ops(4) [where r = r]
      by (intro pool [of "add_sent r (u_pool u)" "\<lambda>_. W_rewait data r"]) simp_all
  next
    case (W_answered data r resp)
    then show ?thesis
      using assms(3) known ops(5) [where r = r]
      by (intro pool [of "MarkSuccessWithLatency r lat (u_pool u)" "\<lambda>_. W_store data resp"]) simp_all
  next
    case (W_repick data r)
    then show ?thesis using assms repick_inv by blast
  next
    case (W_refailed data r)
    then show ?thesis using assms refailed_inv by blast
  next
    case (W_write data resp)
    then show ?thesis using assms(3) ready by (auto intro!: leaves_inv [OF assms(1) w])
  qed (use assms(3) ready known in \<open>auto intro!: go split: sum.splits\<close>)
qed

lemma worker_step_size:
  assumes "w \<in># u_workers u" and "worker_step unpack now draws net lat w u = Some u'"
  shows "size (u_workers u') \<le> size (u_workers u)"
proof -
  obtain W where "u_workers u = add_mset w W" using assms(1) by (auto dest: multi_member_split)
  with assms(2) show ?thesis
    by (cases w) (auto simp: on_pool_Some split: option.splits prod.splits outcome.splits if_splits)
qed

text \<open>A worker does not see the others.\<close>

lemma worker_step_among:
  assumes "w \<in># u_workers u" and "worker_step unpack now draws net lat w u = Some u'"
  shows "worker_step unpack now draws net lat w (u\<lparr>u_workers := u_workers u + M\<rparr>) = Some (u'\<lparr>u_workers := u_workers u' + M\<rparr>)"
proof -
  obtain W where "u_workers u = add_mset w W" using assms(1) by (auto dest: multi_member_split)
  with assms(2) show ?thesis
    by (cases w) (auto simp: on_pool_def split: option.splits prod.splits outcome.splits if_splits)
qed

lemma worker_step_accounts:
  assumes "accounts (u_pool u) (u_workers u + M)" and "w \<in># u_workers u"
    and "worker_step unpack now draws net lat w u = Some u'"
  shows "accounts (u_pool u') (u_workers u' + M)"
  using worker_step_inv [OF _ _ worker_step_among [OF assms(2,3), of M]] assms(1,2) by simp

lemma HealthCheck_ready:
  assumes "pool_ready p" and "set order \<subseteq> {..<length (p_resolvers p)}"
    and "HealthCheck mkquery nets order p = (Done (), q)"
  shows "pool_ready q \<and> pool_known q = pool_known p \<and> pool_owed q = pool_owed p"
proof -
  have "pool_inv q" using HealthCheck_inv [of p order mkquery nets] assms by (simp add: pool_ready_def)
  moreover have "p_mu q = Readers 0 \<and> p_stats q = p_stats p"
    using assms(1,3) by (auto simp: HealthCheck_def with_Lock_def pool_ready_def split: option.splits)
  ultimately show ?thesis by (simp add: pool_ready_def pool_known_def pool_owed_def [abs_def])
qed

lemma udp_step_accounts: "udp_step u u' \<Longrightarrow> accounts (u_pool u) (u_workers u + M) \<Longrightarrow> accounts (u_pool u') (u_workers u' + M)"
proof (induction rule: udp_step.induct)
  case (spawn u data)
  then show ?case by (auto simp: accounts_def in_flight_add)
next
  case (work w u unpack now draws net lat u')
  then show ?case using worker_step_accounts by blast
next
  case (check order u mkquery nets p)
  then show ?case using HealthCheck_ready [of "u_pool u" order mkquery nets p] by (auto simp: accounts_def)
qed simp

lemma udp_step_size: "udp_step u u' \<Longrightarrow> size (u_workers u) \<le> maxWorkers \<Longrightarrow> size (u_workers u') \<le> maxWorkers"
proof (induction rule: udp_step.induct)
  case (work w u unpack now draws net lat u')
  then show ?case using worker_step_size le_trans by blast
qed simp_all

lemma udp_step_inv: "udp_step u u' \<Longrightarrow> udp_inv u \<Longrightarrow> udp_inv u'"
  using udp_step_accounts [of u u' "{#}"] udp_step_size [of u u'] by (simp add: udp_inv_def)

lemma new_pool_ready: "resolvers \<noteq> [] \<Longrightarrow> pool_ready (NewResolverPool resolvers mode doh)"
  by (simp add: pool_ready_def NewResolverPool_inv) (simp add: NewResolverPool_def)

lemma udp_reachable_inv: "udp_reachable u \<Longrightarrow> udp_inv u"
proof (induction rule: udp_reachable.induct)
  case (start resolvers mode doh cache)
  have "pool_owed (NewResolverPool resolvers mode doh) r = 0" for r
    by (auto simp: pool_owed_def NewResolverPool_def init_resolvers_maps map_get_def new_stats_def Let_def)
  with new_pool_ready [OF start] show ?case by (simp add: udp_inv_def accounts_def NewUDPProxy_def in_flight_def maxWorkers_def)
qed (rule udp_step_inv)

text \<open>However the workers interleave with each other and with the health check, the pool's
  counters are exact: for every resolver, what was counted as sent and not yet as answered or failed
  is the number of workers that have a query to it outstanding; there are never more than 256
  workers, and the pool's invariant holds.\<close>

lemma in_flight_exact:
  assumes "udp_reachable u"
  shows "pool_owed (u_pool u) r = of_nat (size (filter_mset (outstanding r) (u_workers u))) \<and>
    size (u_workers u) \<le> 256 \<and> pool_inv (u_pool u)"
  using udp_invD [OF udp_reachable_inv [OF assms]] by (simp add: in_flight_def maxWorkers_def pool_ready_def)

text \<open>No worker panics or waits for a lock for ever while only queries and health checks run:
  whenever the books are in order every worker can make its next step.\<close>

lemma worker_can_step:
  assumes "accounts (u_pool u) W" and "w \<in># W"
  shows "\<exists>u'. worker_step unpack now draws net lat w u = Some u'"
proof -
  note ready = accountsD(1) [OF assms(1)] and known = accountsD(2) [OF assms]
  show ?thesis
  proof (cases w)
    case (W_lookup data)
    then show ?thesis by (auto split: option.split prod.split)
  next
    case (W_pick data)
    then show ?thesis using source.getNext_law [OF ready, of draws] by (auto simp: on_pool_def)
  next
    case (W_picked data r)
    then show ?thesis using known MarkSent_parts(1) [OF ready, of r] by (simp add: on_pool_def)
  next
    case (W_sending data r)
    then show ?thesis
      using known MarkSent_parts(2) [OF ready, of r] upstream.markSent_law [OF ready, of r] by (auto simp: on_pool_def)
  next
    case (W_failed data r)
    then show ?thesis using known upstream.markFailure_law [OF ready, of r] by (auto simp: on_pool_def)
  next
    case (W_repick data r)
    then show ?thesis using source.getNext_law [OF ready, of draws] by auto
  next
    case (W_repicked data r)
    then show ?thesis using known MarkSent_parts(1) [OF ready, of r] by (simp add: on_pool_def)
  next
    case (W_resending data r)
    then show ?thesis
      using known MarkSent_parts(2) [OF ready, of r] upstream.markSent_law [OF ready, of r] by (auto simp: on_pool_def)
  next
    case (W_refailed data r)
    then show ?thesis using known upstream.markFailure_law [OF ready, of r] by auto
  next
    case (W_answered data r resp)
    then show ?thesis using known upstream.markSuccess_law [OF ready, of r lat] by (auto simp: on_pool_def)
  qed simp_all
qed

definition ex_udp :: udp_proxy where
  "ex_udp = (NewUDPProxy ex_pool None)\<lparr>u_workers := {#W_lookup [1]#}, u_queryCount := 1\<rparr>"

lemma ex_udp_reachable: "udp_reachable ex_udp"
proof -
  define u0 where "u0 = NewUDPProxy ex_pool None"
  have "udp_reachable u0" unfolding u0_def ex_pool_def by (rule udp_reachable.start) simp
  then have "udp_reachable (u0\<lparr>u_held := Some (take dnsBufferSize [1]), u_queryCount := u_queryCount u0 + 1\<rparr>)"
    by (rule udp_reachable.step) (rule udp_step.read, simp add: u0_def NewUDPProxy_def)
  then have "udp_reachable ((u0\<lparr>u_held := Some (take dnsBufferSize [1]), u_queryCount := u_queryCount u0 + 1\<rparr>)
      \<lparr>u_held := None, u_workers := add_mset (W_lookup [1]) {#}\<rparr>)"
    by (rule udp_reachable.step)
      (use udp_step.spawn [of "u0\<lparr>u_held := Some (take dnsBufferSize [1]), u_queryCount := u_queryCount u0 + 1\<rparr>" "[1]"]
        in \<open>simp add: u0_def NewUDPProxy_def maxWorkers_def dnsBufferSize_def\<close>)
  then show ?thesis by (simp add: ex_udp_def u0_def NewUDPProxy_def)
qed

lemma in_flight_exact_witness: "pool_owed (u_pool ex_udp) ex_r1 = 0 \<and> size (u_workers ex_udp) \<le> 256"
  using in_flight_exact [OF ex_udp_reachable, of ex_r1] by (simp add: ex_udp_def)

end
