(* ===== verification/ForwardSteps.thy ===== *)
theory ForwardSteps
  imports Workers
begin

text \<open>
  The two models of a query agree: what \<open>forward\<close> does in one go (\<open>Proxy\<close>) is a run of the worker's steps (\<open>Workers\<close>),
  beside any other workers.
\<close>

lemma and_then_Done:
  "and_then m f = (Done a, s) \<longleftrightarrow> (\<exists>b t. m = (Done b, t) \<and> f b t = (Done a, s))"
  by (cases m; cases "fst m") (auto simp: and_then_def)

lemma MarkSent_Done:
  assumes "MarkSent r p = (Done x, q)"
  shows "find_stats r p = (Done (), p)" and "add_sent r p = (Done (), q)"
  using assms by (auto simp: MarkSent_eq find_stats_def add_sent_def split: option.splits)

text \<open>The state with one worker singled out among \<open>W\<close>.\<close>

abbreviation among :: "udp_proxy \<Rightarrow> worker multiset \<Rightarrow> worker \<Rightarrow> pool \<Rightarrow> DNSCache option \<Rightarrow> udp_proxy" where
  "among u W w p c \<equiv> u\<lparr>u_pool := p, u_cache := c, u_workers := add_mset w W\<rparr>"

definition finished :: "udp_proxy \<Rightarrow> worker multiset \<Rightarrow> bytes \<Rightarrow> bytes option \<Rightarrow> pool \<Rightarrow> DNSCache option \<Rightarrow> udp_proxy" where
  "finished u W data reply p c =
     u\<lparr>u_pool := p, u_cache := c, u_workers := W,
       u_replies := u_replies u @ (case reply of None \<Rightarrow> [] | Some resp \<Rightarrow> [(data, resp)])\<rparr>"

lemma step_at:
  assumes "worker_step unpack now draws net lat w (among u W w p c) = Some v"
  shows "udp_step (among u W w p c) v"
  using assms by (intro udp_step.work [of w]) simp_all

lemma run_step:
  assumes "worker_step unpack now draws net lat w (among u W w p c) = Some v" and "udp_step\<^sup>*\<^sup>* v v'"
  shows "udp_step\<^sup>*\<^sup>* (among u W w p c) v'"
  using step_at [OF assms(1)] assms(2) by (rule converse_rtranclp_into_rtranclp)

lemma run_write: "udp_step\<^sup>*\<^sup>* (among u W (W_write data resp) p c) (finished u W data (Some resp) p c)"
  by (rule r_into_rtranclp, rule step_at) (simp add: finished_def)

lemma run_store:
  "udp_step\<^sup>*\<^sup>* (among u W (W_store data resp) p c) (finished u W data (Some resp) p (map_option (Put unpack now data resp) c))"
  by (rule run_step [OF _ run_write]) simp

lemma run_answered:
  assumes "MarkSuccessWithLatency r lat p = (Done x, q)"
  shows "udp_step\<^sup>*\<^sup>* (among u W (W_answered data r resp) p c)
    (finished u W data (Some resp) q (map_option (Put unpack now data resp) c))"
proof -
  have "worker_step unpack now id ex_dead_net lat (W_answered data r resp) (among u W (W_answered data r resp) p c) =
      Some (among u W (W_store data resp) q c)" by (simp add: on_pool_def assms)
  from run_step [OF this run_store] show ?thesis .
qed

text \<open>The retry, from the resolver that was drawn for it.\<close>

lemma run_repicked:
  assumes "and_then (MarkSent r p) (\<lambda>_ p. case SendQuery net data r p of
      Inl _ \<Rightarrow> and_then (MarkFailure r p) (\<lambda>_ p. (Done None, p))
    | Inr resp \<Rightarrow> and_then (MarkSuccessWithLatency r lat p) (\<lambda>_ p. (Done (Some resp), p))) = (Done reply, q)"
  shows "udp_step\<^sup>*\<^sup>* (among u W (W_repicked data r) p c)
    (finished u W data reply q (case reply of None \<Rightarrow> c | Some resp \<Rightarrow> map_option (Put unpack now data resp) c))"
proof -
  obtain x p1 where sent: "MarkSent r p = (Done x, p1)"
    and rest: "(case SendQuery net data r p1 of
      Inl _ \<Rightarrow> and_then (MarkFailure r p1) (\<lambda>_ p. (Done None, p))
    | Inr resp \<Rightarrow> and_then (MarkSuccessWithLatency r lat p1) (\<lambda>_ p. (Done (Some resp), p))) = (Done reply, q)"
    using assms by (auto simp: and_then_Done)
  note m = MarkSent_Done [OF sent]
  have s0: "worker_step unpack now draws net lat (W_repicked data r) (among u W (W_repicked data r) p c) =
      Some (among u W (W_resending data r) p c)" by (simp add: on_pool_def m(1))
  have s1: "worker_step unpack now draws net lat (W_resending data r) (among u W (W_resending data r) p c) =
      Some (among u W (W_rewait data r) p1 c)" by (simp add: on_pool_def m(2))
  show ?thesis
  proof (cases "SendQuery net data r p1")
    case (Inl e)
    with rest obtain b where failed: "MarkFailure r p1 = (Done b, q)" "reply = None"
      by (auto simp: and_then_Done)
    have "worker_step unpack now draws net lat (W_rewait data r) (among u W (W_rewait data r) p1 c) =
        Some (among u W (W_refailed data r) p1 c)" by (simp add: Inl)
    note s2 = this
    have "worker_step unpack now draws net lat (W_refailed data r) (among u W (W_refailed data r) p1 c) =
        Some (finished u W data None q c)" by (simp add: failed(1) finished_def)
    from run_step [OF s0 run_step [OF s1 run_step [OF s2 run_step [OF this rtranclp.rtrancl_refl]]]] failed(2) show ?thesis by simp
  next
    case (Inr resp)
    with rest obtain b where marked: "MarkSuccessWithLatency r lat p1 = (Done b, q)" "reply = Some resp"
      by (auto simp: and_then_Done)
    have "worker_step unpack now draws net lat (W_rewait data r) (among u W (W_rewait data r) p1 c) =
        Some (among u W (W_answered data r resp) p1 c)" by (simp add: Inr)
    from run_step [OF s0 run_step [OF s1 run_step [OF this run_answered [OF marked(1)]]]] marked(2) show ?thesis by simp
  qed
qed

lemma run_pick:
  assumes "pool_exchange env data p = (Done reply, q)"
  shows "udp_step\<^sup>*\<^sup>* (among u W (W_pick data) p c) (finished u W data reply q
    (case reply of None \<Rightarrow> c | Some resp \<Rightarrow> map_option (Put unpack (fe_now_put env) data resp) c))"
proof -
  obtain r p1 x p2 where draw: "GetNext (fe_draws1 env) p = (Done r, p1)" and sent: "MarkSent r p1 = (Done x, p2)"
    and rest: "(case SendQuery (fe_net1 env) data r p2 of
       Inr resp \<Rightarrow> and_then (MarkSuccessWithLatency r (fe_lat1 env) p2) (\<lambda>_ p. (Done (Some resp), p))
     | Inl _ \<Rightarrow>
         and_then (MarkFailure r p2) (\<lambda>_ p.
         and_then (GetNext (fe_draws2 env) p) (\<lambda>retry p.
         if retry \<noteq> r then
           and_then (MarkSent retry p) (\<lambda>_ p.
           case SendQuery (fe_net2 env) data retry p of
             Inl _ \<Rightarrow> and_then (MarkFailure retry p) (\<lambda>_ p. (Done None, p))
           | Inr resp \<Rightarrow>
               and_then (MarkSuccessWithLatency retry (fe_lat2 env) p) (\<lambda>_ p. (Done (Some resp), p)))
         else (Done None, p)))) = (Done reply, q)"
    using assms by (auto simp: pool_exchange_def exchange_def and_then_Done)
  have s1: "worker_step unpack 0 (fe_draws1 env) (fe_net1 env) 0 (W_pick data) (among u W (W_pick data) p c) =
      Some (among u W (W_picked data r) p1 c)" by (simp add: on_pool_def draw)
  note m = MarkSent_Done [OF sent]
  have s2a: "worker_step unpack 0 (fe_draws1 env) (fe_net1 env) 0 (W_picked data r) (among u W (W_picked data r) p1 c) =
      Some (among u W (W_sending data r) p1 c)" by (simp add: on_pool_def m(1))
  have s2: "worker_step unpack 0 (fe_draws1 env) (fe_net1 env) 0 (W_sending data r) (among u W (W_sending data r) p1 c) =
      Some (among u W (W_wait data r) p2 c)" by (simp add: on_pool_def m(2))
  show ?thesis
  proof (cases "SendQuery (fe_net1 env) data r p2")
    case (Inr resp)
    with rest obtain b where marked: "MarkSuccessWithLatency r (fe_lat1 env) p2 = (Done b, q)" "reply = Some resp"
      by (auto simp: and_then_Done)
    have "worker_step unpack 0 (fe_draws1 env) (fe_net1 env) 0 (W_wait data r) (among u W (W_wait data r) p2 c) =
        Some (among u W (W_answered data r resp) p2 c)" by (simp add: Inr)
    from run_step [OF s1 run_step [OF s2a run_step [OF s2 run_step [OF this run_answered [OF marked(1)]]]]] marked(2) show ?thesis by simp
  next
    case (Inl e)
    with rest obtain b p3 retry p4 where failed: "MarkFailure r p2 = (Done b, p3)"
      and redraw: "GetNext (fe_draws2 env) p3 = (Done retry, p4)"
      and last: "(if retry \<noteq> r then
           and_then (MarkSent retry p4) (\<lambda>_ p.
           case SendQuery (fe_net2 env) data retry p of
             Inl _ \<Rightarrow> and_then (MarkFailure retry p) (\<lambda>_ p. (Done None, p))
           | Inr resp \<Rightarrow>
               and_then (MarkSuccessWithLatency retry (fe_lat2 env) p) (\<lambda>_ p. (Done (Some resp), p)))
         else (Done None, p4)) = (Done reply, q)"
      by (auto simp: and_then_Done)
    have s3: "worker_step unpack 0 (fe_draws1 env) (fe_net1 env) 0 (W_wait data r) (among u W (W_wait data r) p2 c) =
        Some (among u W (W_failed data r) p2 c)" by (simp add: Inl)
    have s4: "worker_step unpack 0 (fe_draws1 env) (fe_net1 env) 0 (W_failed data r) (among u W (W_failed data r) p2 c) =
        Some (among u W (W_repick data r) p3 c)" by (simp add: on_pool_def failed)
    have s5: "worker_step unpack 0 (fe_draws2 env) (fe_net2 env) 0 (W_repick data r) (among u W (W_repick data r) p3 c) =
        Some (if retry \<noteq> r then among u W (W_repicked data retry) p4 c else finished u W data None p4 c)"
      by (simp add: redraw finished_def)
    have "udp_step\<^sup>*\<^sup>* (if retry \<noteq> r then among u W (W_repicked data retry) p4 c else finished u W data None p4 c)
        (finished u W data reply q (case reply of None \<Rightarrow> c | Some resp \<Rightarrow> map_option (Put unpack (fe_now_put env) data resp) c))"
    proof (cases "retry = r")
      case True
      with last show ?thesis by simp
    next
      case False
      with last have "udp_step\<^sup>*\<^sup>* (among u W (W_repicked data retry) p4 c)
        (finished u W data reply q (case reply of None \<Rightarrow> c | Some resp \<Rightarrow> map_option (Put unpack (fe_now_put env) data resp) c))"
        by (intro run_repicked) simp
      with False show ?thesis by simp
    qed
    from run_step [OF s1 run_step [OF s2a run_step [OF s2 run_step [OF s3 run_step [OF s4 run_step [OF s5 this]]]]]] show ?thesis .
  qed
qed

text \<open>C8: the step-by-step worker implements \<open>forward\<close>: whenever \<open>forward\<close> carries a query to its end, the worker that
  starts with the query can run, among any others and without touching them, to the same reply, the
  same cache and the same pool, and is gone then.\<close>

theorem forward_by_steps:
  assumes "forward unpack env data (u_cache u) (u_pool u) = (Done reply, c, p)" and "W_lookup data \<in># u_workers u"
  shows "udp_step\<^sup>*\<^sup>* u (u\<lparr>u_pool := p, u_cache := c, u_workers := u_workers u - {#W_lookup data#},
    u_replies := u_replies u @ (case reply of None \<Rightarrow> [] | Some resp \<Rightarrow> [(data, resp)])\<rparr>)"
proof -
  obtain W where W: "u_workers u = add_mset (W_lookup data) W" using assms(2) by (auto dest: multi_member_split)
  have same: "u\<lparr>u_workers := add_mset (W_lookup data) W\<rparr> = u" by (simp add: W [symmetric])
  have pick: "udp_step\<^sup>*\<^sup>* (among u W (W_pick data) (u_pool u) c1) (finished u W data reply p c)"
    if "after_exchange unpack env data c1 (u_pool u) = (Done reply, c, p)" for c1
  proof -
    from that have ran: "pool_exchange env data (u_pool u) = (Done reply, p)"
      and c: "c = (case reply of None \<Rightarrow> c1 | Some resp \<Rightarrow> map_option (Put unpack (fe_now_put env) data resp) c1)"
      by (auto simp: after_exchange_def split: prod.splits outcome.splits option.splits)
    from run_pick [OF ran] show ?thesis unfolding c .
  qed
  have "udp_step\<^sup>*\<^sup>* (among u W (W_lookup data) (u_pool u) (u_cache u)) (finished u W data reply p c)"
  proof (cases "u_cache u")
    case None
    with assms(1) have "after_exchange unpack env data None (u_pool u) = (Done reply, c, p)" by (simp add: forward_def)
    note rest = pick [OF this]
    have "worker_step unpack 0 id ex_dead_net 0 (W_lookup data) (among u W (W_lookup data) (u_pool u) None) =
        Some (among u W (W_pick data) (u_pool u) None)" by simp
    from run_step [OF this rest] show ?thesis unfolding None .
  next
    case (Some c0)
    obtain hit c1 where get: "Get unpack (fe_now_get env) data c0 = (hit, c1)" by fastforce
    show ?thesis
    proof (cases hit)
      case None
      with assms(1) Some get have "after_exchange unpack env data (Some c1) (u_pool u) = (Done reply, c, p)"
        by (simp add: forward_def)
      note rest = pick [OF this]
      have "worker_step unpack (fe_now_get env) id ex_dead_net 0 (W_lookup data) (among u W (W_lookup data) (u_pool u) (Some c0)) =
          Some (among u W (W_pick data) (u_pool u) (Some c1))" by (simp add: get None)
      from run_step [OF this rest] show ?thesis unfolding Some .
    next
      case (Some resp)
      with assms(1) \<open>u_cache u = Some c0\<close> get have "reply = Some resp" "c = Some c1" "p = u_pool u"
        by (simp_all add: forward_def)
      note end_state = this
      have "worker_step unpack (fe_now_get env) id ex_dead_net 0 (W_lookup data) (among u W (W_lookup data) (u_pool u) (Some c0)) =
          Some (among u W (W_write data resp) (u_pool u) (Some c1))" by (simp add: get Some)
      from run_step [OF this run_write] show ?thesis unfolding end_state \<open>u_cache u = Some c0\<close> .
    qed
  qed
  then show ?thesis by (simp add: finished_def W same)
qed

theorem forward_by_steps_witness:
  "\<exists>reply p. udp_step\<^sup>*\<^sup>* ex_udp (ex_udp\<lparr>u_pool := p, u_cache := None, u_workers := {#}, u_replies := reply\<rparr>)"
proof -
  obtain reply q where "forward ex_unpack ex_env [1] None ex_pool = (Done reply, None, q)"
    using forward_settled [of ex_pool ex_unpack ex_env "[1]" None] ex_pool_inv
    by (auto simp: pool_ready_def forward_def after_exchange_def split: prod.splits outcome.splits option.splits)
  from forward_by_steps [of ex_unpack ex_env "[1]" ex_udp reply None q] this show ?thesis
    by (auto simp: ex_udp_def NewUDPProxy_def)
qed

end
