(* ===== verification/Frozen.thy ===== *)
theory Frozen
  imports Workers
begin

text \<open>
  The UDP proxy of \<open>proxy.go\<close> on a pool whose mutex is never given back, as \<open>UpdateResolvers\<close> leaves it: what
  the workers of \<open>Workers\<close> can still do, and how many more queries the loop can take.
\<close>

text \<open>A worker that only has to write its answer: the pool is not needed any more.\<close>

fun answering :: "worker \<Rightarrow> bool" where
  "answering (W_store data resp) = True"
| "answering (W_write data resp) = True"
| "answering _ = False"

definition answers_left :: "udp_proxy \<Rightarrow> nat" where
  "answers_left u = size (filter_mset answering (u_workers u))"

definition taken :: "udp_proxy \<Rightarrow> nat" where
  "taken u = size (u_workers u) + of_bool (u_held u \<noteq> None) + length (u_replies u)"

subsection \<open>The counter that needs no lock\<close>

text \<open>A worker that has looked the statistics up and not added to them yet does so on a locked pool too.\<close>

fun adding :: "Resolver \<Rightarrow> worker \<Rightarrow> bool" where
  "adding r (W_sending data r') = (r' = r)"
| "adding r (W_resending data r') = (r' = r)"
| "adding r _ = False"

abbreviation additions :: "Resolver \<Rightarrow> worker multiset \<Rightarrow> nat" where
  "additions r W \<equiv> size (filter_mset (adding r) W)"

definition sent_of :: "pool \<Rightarrow> Resolver \<Rightarrow> uint64" where
  "sent_of p r = (case p_stats p r of None \<Rightarrow> 0 | Some s \<Rightarrow> st_sent s)"

definition but_sent :: "pool \<Rightarrow> pool" where
  "but_sent p = p\<lparr>p_stats := (\<lambda>r. map_option (\<lambda>s. s\<lparr>st_sent := 0\<rparr>) (p_stats p r))\<rparr>"

text \<open>Nothing but the sent counters has changed, and those by what the workers had still to add.\<close>

definition only_added :: "pool \<Rightarrow> worker multiset \<Rightarrow> pool \<Rightarrow> worker multiset \<Rightarrow> bool" where
  "only_added p W p' W' \<longleftrightarrow> but_sent p' = but_sent p \<and>
     (\<forall>r. \<exists>k. sent_of p' r = sent_of p r + of_nat k \<and> additions r W' + k = additions r W)"

lemma but_sentD:
  assumes "but_sent p' = but_sent p"
  shows "p_mu p' = p_mu p" and "p_resolvers p' = p_resolvers p" and "dom (p_stats p') = dom (p_stats p)"
proof -
  have "p_mu (but_sent p') = p_mu (but_sent p)" "p_resolvers (but_sent p') = p_resolvers (but_sent p)"
    "dom (p_stats (but_sent p')) = dom (p_stats (but_sent p))" by (simp_all only: assms)
  then show "p_mu p' = p_mu p" and "p_resolvers p' = p_resolvers p" and "dom (p_stats p') = dom (p_stats p)"
    by (simp_all add: but_sent_def dom_def)
qed

lemma only_added_same: "(\<And>r. additions r W' = additions r W) \<Longrightarrow> only_added p W p W'"
  by (auto simp: only_added_def intro: exI [of _ 0])

lemma only_added_frame: "only_added p W p' W' \<Longrightarrow> only_added p (W + M) p' (W' + M)"
  by (fastforce simp: only_added_def)

lemma only_added_trans:
  assumes "only_added p W p' W'" and "only_added p' W' p'' W''"
  shows "only_added p W p'' W''"
  unfolding only_added_def
proof (intro conjI allI)
  fix r
  obtain k where "sent_of p' r = sent_of p r + of_nat k" "additions r W' + k = additions r W"
    using assms(1) by (auto simp: only_added_def)
  moreover obtain l where "sent_of p'' r = sent_of p' r + of_nat l" "additions r W'' + l = additions r W'"
    using assms(2) by (auto simp: only_added_def)
  ultimately show "\<exists>k. sent_of p'' r = sent_of p r + of_nat k \<and> additions r W'' + k = additions r W"
    by (intro exI [of _ "k + l"]) (simp add: add.assoc)
qed (use assms in \<open>simp add: only_added_def\<close>)

lemma add_sent_only:
  assumes "add_sent r p = (Done x, q)" and "\<And>r'. adding r' w = (r = r')" and "\<And>r'. \<not> adding r' w'"
  shows "only_added p (add_mset w W) q (add_mset w' W)"
proof -
  obtain s where s: "p_stats p r = Some s" "q = p\<lparr>p_stats := (p_stats p)(r \<mapsto> s\<lparr>st_sent := st_sent s + 1\<rparr>)\<rparr>"
    using assms(1) by (auto simp: add_sent_def split: option.splits)
  have "but_sent q = but_sent p" using s(1) by (auto simp: but_sent_def s(2) fun_eq_iff)
  moreover have "sent_of q r' = sent_of p r' + of_nat (of_bool (r' = r))" for r'
    using s(1) by (simp add: sent_of_def s(2))
  ultimately show ?thesis by (auto simp: only_added_def assms(2,3) intro!: exI [of _ "of_bool (_ = r)"])
qed

lemma work_only_added:
  assumes "p_mu (u_pool u) = Writer" and w: "w \<in># u_workers u"
    and "worker_step unpack now draws net lat w u = Some u'"
  shows "only_added (u_pool u) (u_workers u) (u_pool u') (u_workers u')"
proof -
  note blocks = Writer_blocks [OF assms(1)]
  obtain W where W: "u_workers u = add_mset w W" using w by (auto dest: multi_member_split)
  show ?thesis
  proof (cases w)
    case (W_sending data r)
    with assms(3) W show ?thesis
      using add_sent_only [of r "u_pool u" _ _ w] by (auto simp: on_pool_Some)
  next
    case (W_resending data r)
    with assms(3) W show ?thesis
      using add_sent_only [of r "u_pool u" _ _ w] by (auto simp: on_pool_Some)
  qed (use assms(3) W blocks in \<open>auto simp: on_pool_def intro!: only_added_same split: option.splits prod.splits sum.splits\<close>)
qed

lemma udp_step_only_added:
  "udp_step u u' \<Longrightarrow> p_mu (u_pool u) = Writer \<Longrightarrow> only_added (u_pool u) (u_workers u) (u_pool u') (u_workers u')"
proof (induction rule: udp_step.induct)
  case (work w u unpack now draws net lat u')
  then show ?case using work_only_added by blast
next
  case (check order u mkquery nets p)
  then show ?case by (simp add: Writer_blocks)
qed (simp_all add: only_added_same)

lemma only_added_mu: "only_added p W p' W' \<Longrightarrow> p_mu p' = p_mu p"
  unfolding only_added_def by (blast intro: but_sentD(1))

subsection \<open>Single steps\<close>

text \<open>One step on a locked pool without a cache, as far as accounting sees it.\<close>

definition stuck_step :: "udp_proxy \<Rightarrow> udp_proxy \<Rightarrow> bool" where
  "stuck_step u u' \<longleftrightarrow> p_mu (u_pool u') = p_mu (u_pool u) \<and> u_cache u' = None \<and>
     length (u_replies u') + answers_left u' = length (u_replies u) + answers_left u \<and>
     (size (u_workers u) \<le> maxWorkers \<longrightarrow> size (u_workers u') \<le> maxWorkers) \<and>
     (taken u' = taken u \<and> u_queryCount u' = u_queryCount u \<or>
      taken u' = Suc (taken u) \<and> u_queryCount u' = u_queryCount u + 1)"

lemma work_stuck:
  assumes "p_mu (u_pool u) = Writer" and "u_cache u = None" and w: "w \<in># u_workers u"
    and "worker_step unpack now draws net lat w u = Some u'"
  shows "stuck_step u u'"
proof -
  note blocks = Writer_blocks [OF assms(1)]
  obtain W where W: "u_workers u = add_mset w W" using w by (auto dest: multi_member_split)
  have mu: "p_mu (u_pool u') = p_mu (u_pool u)"
    using only_added_mu [OF work_only_added [OF assms(1,3,4)]] .
  show ?thesis
    using assms(2,4) W mu blocks
    by (cases w) (auto simp: stuck_step_def answers_left_def taken_def on_pool_Some split: sum.splits)
qed

lemma udp_step_stuck:
  "udp_step u u' \<Longrightarrow> p_mu (u_pool u) = Writer \<Longrightarrow> u_cache u = None \<Longrightarrow> stuck_step u u'"
proof (induction rule: udp_step.induct)
  case (work w u unpack now draws net lat u')
  then show ?case using work_stuck by blast
next
  case (check order u mkquery nets p)
  then show ?case by (simp add: Writer_blocks)
qed (simp_all add: stuck_step_def answers_left_def taken_def)

text \<open>A whole run on a locked pool.\<close>

definition stuck_run :: "udp_proxy \<Rightarrow> udp_proxy \<Rightarrow> bool" where
  "stuck_run u u' \<longleftrightarrow> p_mu (u_pool u') = p_mu (u_pool u) \<and> u_cache u' = None \<and>
     length (u_replies u') + answers_left u' = length (u_replies u) + answers_left u \<and>
     size (u_workers u') \<le> maxWorkers \<and>
     (\<exists>k. u_queryCount u' = u_queryCount u + of_nat k \<and> taken u' = taken u + k)"

lemma stuck_run_step: "stuck_run u u' \<Longrightarrow> stuck_step u' u'' \<Longrightarrow> stuck_run u u''"
  unfolding stuck_run_def stuck_step_def
  by (elim conjE exE disjE) (auto intro: exI [of _ "Suc k" for k])

lemma stuck_run_refl: "u_cache u = None \<Longrightarrow> size (u_workers u) \<le> maxWorkers \<Longrightarrow> stuck_run u u"
  by (auto simp: stuck_run_def intro: exI [of _ 0])

text \<open>What a proxy without a cache can still do in such a run: take at most 257 queries (256 workers and the one the loop
  holds), and answer what workers had already received an answer for.\<close>

lemma stuck_run_bounds:
  assumes "stuck_run u u'"
  shows "(\<exists>k\<le>257. u_queryCount u' = u_queryCount u + of_nat k) \<and>
    length (u_replies u') \<le> length (u_replies u) + size (filter_mset answering (u_workers u))"
proof -
  note run = assms
  then obtain k where k: "u_queryCount u' = u_queryCount u + of_nat k" "taken u' = taken u + k"
    by (auto simp: stuck_run_def)
  have replies: "length (u_replies u') + answers_left u' = length (u_replies u) + answers_left u"
    using run by (simp add: stuck_run_def)
  have "answers_left u \<le> size (u_workers u)" by (simp add: answers_left_def size_filter_mset_lesseq)
  moreover have "size (u_workers u') \<le> 256" using run by (simp add: stuck_run_def maxWorkers_def)
  moreover have "taken u' \<le> size (u_workers u') + 1 + length (u_replies u')" by (simp add: taken_def)
  moreover have "size (u_workers u) + length (u_replies u) \<le> taken u" by (simp add: taken_def)
  ultimately have "k \<le> 257" using k(2) replies by linarith
  then show ?thesis using k(1) replies by (auto simp: answers_left_def)
qed

end
