(* ===== verification/GoBase64.thy ===== *)
theory GoBase64
  imports GoStrings
begin

text \<open>
  Go's \<open>base64.StdEncoding\<close> and the encoding of bytes as hexadecimal text, on byte strings, as
  instances of one contract: decoding inverts encoding, and encoded text stays in an alphabet
  without white space.
\<close>

subsection \<open>The contract of a text encoding\<close>

locale text_codec =
  fixes enc :: "string \<Rightarrow> string" and dec :: "string \<Rightarrow> string option" and alphabet :: "char set"
  assumes dec_enc: "dec (enc s) = Some s"
    and enc_alphabet: "set (enc s) \<subseteq> alphabet"
    and no_space: "c \<in> alphabet \<Longrightarrow> \<not> space_start c"
begin

lemma enc_inj: "enc s = enc t \<longleftrightarrow> s = t"
  by (metis dec_enc option.inject)

lemma enc_survives_spaces: "dec (Join (Fields (enc s)) []) = Some s"
proof -
  have "Join (Fields (enc s)) [] = enc s"
    using enc_alphabet no_space by (intro Join_Fields_id) blast
  then show ?thesis by (simp add: dec_enc)
qed

end

subsection \<open>Base64\<close>

definition b64_char :: "nat \<Rightarrow> char" where
  "b64_char n = char_of
     (if n < 26 then n + 65 else if n < 52 then n + 71 else if n < 62 then n - 4
      else if n = 62 then 43 else (47 :: nat))"

definition b64_val :: "char \<Rightarrow> nat option" where
  "b64_val c =
     (let k = of_char c in
      if 65 \<le> k \<and> k \<le> 90 then Some (k - 65) else if 97 \<le> k \<and> k \<le> 122 then Some (k - 71)
      else if 48 \<le> k \<and> k \<le> 57 then Some (k + 4)
      else if k = 43 then Some 62 else if k = 47 then Some 63 else None)"

abbreviation pad_char :: char where
  "pad_char \<equiv> CHR ''=''"

definition b64_quad :: "nat \<Rightarrow> nat \<Rightarrow> nat \<Rightarrow> string" where
  "b64_quad a b c = map b64_char [a div 4, a mod 4 * 16 + b div 16, b mod 16 * 4 + c div 64, c mod 64]"

fun EncodeToString :: "string \<Rightarrow> string" where
  "EncodeToString [] = []"
| "EncodeToString [a] = take 2 (b64_quad (of_char a) 0 0) @ [pad_char, pad_char]"
| "EncodeToString [a, b] = take 3 (b64_quad (of_char a) (of_char b) 0) @ [pad_char]"
| "EncodeToString (a # b # c # s) = b64_quad (of_char a) (of_char b) (of_char c) @ EncodeToString s"

text \<open>
  \<open>DecodeString\<close> skips carriage returns and line feeds, wants the padding of the last group, and
  does not look at the bits the padding leaves over. \<open>None\<close> is its error.
\<close>

definition b64_bytes :: "nat \<Rightarrow> nat \<Rightarrow> nat \<Rightarrow> nat \<Rightarrow> string" where
  "b64_bytes x y z w = map char_of [x * 4 + y div 16, y mod 16 * 16 + z div 4, z mod 4 * 64 + w]"

fun decode_groups :: "string \<Rightarrow> string option" where
  "decode_groups [] = Some []"
| "decode_groups (a # b # c # d # s) =
     (case (b64_val a, b64_val b) of
        (Some x, Some y) \<Rightarrow>
          (case b64_val c of
             None \<Rightarrow> if c = pad_char \<and> d = pad_char \<and> s = [] then Some (take 1 (b64_bytes x y 0 0)) else None
           | Some z \<Rightarrow>
               (case b64_val d of
                  None \<Rightarrow> if d = pad_char \<and> s = [] then Some (take 2 (b64_bytes x y z 0)) else None
                | Some w \<Rightarrow>
                    (case decode_groups s of None \<Rightarrow> None | Some t \<Rightarrow> Some (b64_bytes x y z w @ t))))
      | _ \<Rightarrow> None)"
| "decode_groups _ = None"

definition DecodeString :: "string \<Rightarrow> string option" where
  "DecodeString s = decode_groups (filter (\<lambda>c. c \<noteq> CHR 0x0A \<and> c \<noteq> CHR 0x0D) s)"

definition b64_alphabet :: "char set" where
  "b64_alphabet = insert pad_char (b64_char ` {..<64})"

lemma char_less: "(of_char c :: nat) < 256"
  using of_char_mod_256 [of c, where 'a = nat] by (metis mod_less_divisor zero_less_numeral)

lemma zero_less_256: "(0 :: nat) < 256"
  by simp

lemma space_start_code: "space_start c \<Longrightarrow> of_char c \<in> {9, 10, 11, 12, 13, 32, 194, 225, 226, 227 :: nat}"
  by (auto simp: space_start_def go_spaces_def)

definition b64_code :: "nat \<Rightarrow> nat" where
  "b64_code n = (if n < 26 then n + 65 else if n < 52 then n + 71 else if n < 62 then n - 4
      else if n = 62 then 43 else 47)"

lemma of_b64_char: "n < 64 \<Longrightarrow> of_char (b64_char n) = b64_code n"
  by (auto simp: b64_char_def b64_code_def)

lemma b64_val_char [simp]: "n < 64 \<Longrightarrow> b64_val (b64_char n) = Some n"
  by (auto simp: b64_val_def of_b64_char b64_code_def Let_def)

lemma b64_code_range: "n < 64 \<Longrightarrow> b64_code n \<in> {43, 47} \<union> {48..57} \<union> {65..90} \<union> {97..122}"
  by (auto simp: b64_code_def)

lemma b64_char_not: "n < 64 \<Longrightarrow> of_char c \<notin> {43, 47} \<union> {48..57} \<union> {65..90} \<union> {97..122 :: nat} \<Longrightarrow> b64_char n \<noteq> c"
  using b64_code_range [of n] of_b64_char [of n] by metis

lemma b64_val_pad [simp]: "b64_val pad_char = None"
  by (simp add: b64_val_def)

lemma b64_no_space: "c \<in> b64_alphabet \<Longrightarrow> \<not> space_start c"
  using b64_code_range by (fastforce simp: b64_alphabet_def of_b64_char dest!: space_start_code)

lemma quad_bounds:
  fixes a b c :: nat
  assumes "a < 256" "b < 256" "c < 256"
  shows "a div 4 < 64" "a mod 4 * 16 + b div 16 < 64" "b mod 16 * 4 + c div 64 < 64" "c mod 64 < 64"
proof -
  have "a mod 4 < 4" "b div 16 < 16" "b mod 16 < 16" "c div 64 < 4"
    using assms by (auto simp: less_mult_imp_div_less)
  then show "a div 4 < 64" "a mod 4 * 16 + b div 16 < 64" "b mod 16 * 4 + c div 64 < 64" "c mod 64 < 64"
    using assms by auto
qed

lemma quad_bytes:
  fixes a b c :: nat
  assumes "a < 256" "b < 256" "c < 256"
  shows "a div 4 * 4 + (a mod 4 * 16 + b div 16) div 16 = a"
    "(a mod 4 * 16 + b div 16) mod 16 * 16 + (b mod 16 * 4 + c div 64) div 4 = b"
    "(b mod 16 * 4 + c div 64) mod 4 * 64 + c mod 64 = c"
proof -
  have "b div 16 < 16" "c div 64 < 4" using assms by (auto simp: less_mult_imp_div_less)
  then show "a div 4 * 4 + (a mod 4 * 16 + b div 16) div 16 = a"
    "(a mod 4 * 16 + b div 16) mod 16 * 16 + (b mod 16 * 4 + c div 64) div 4 = b"
    "(b mod 16 * 4 + c div 64) mod 4 * 64 + c mod 64 = c"
    by simp_all
qed

lemma decode_quad:
  fixes a b c :: char
  shows "b64_bytes (of_char a div 4) (of_char a mod 4 * 16 + of_char b div 16)
      (of_char b mod 16 * 4 + of_char c div 64) (of_char c mod 64) = [a, b, c]"
  using quad_bytes [OF char_less [of a] char_less [of b] char_less [of c]] by (simp add: b64_bytes_def)

lemma decode_EncodeToString: "decode_groups (EncodeToString s) = Some s"
proof (induction s rule: EncodeToString.induct)
  case (2 a)
  then show ?case
    using quad_bounds [OF char_less [of a] zero_less_256 zero_less_256] decode_quad [of a "CHR 0x00" "CHR 0x00"]
    by (simp add: b64_quad_def numeral_2_eq_2)
next
  case (3 a b)
  then show ?case
    using quad_bounds [OF char_less [of a] char_less [of b] zero_less_256] decode_quad [of a b "CHR 0x00"]
    by (simp add: b64_quad_def numeral_3_eq_3)
next
  case (4 a b c s)
  then show ?case
    using quad_bounds [OF char_less [of a] char_less [of b] char_less [of c]] decode_quad [of a b c]
    by (simp add: b64_quad_def)
qed simp

lemma set_b64_quad: "a < 256 \<Longrightarrow> b < 256 \<Longrightarrow> c < 256 \<Longrightarrow> set (b64_quad a b c) \<subseteq> b64_alphabet"
  using quad_bounds [of a b c] by (simp add: b64_quad_def b64_alphabet_def)

lemma EncodeToString_alphabet: "set (EncodeToString s) \<subseteq> b64_alphabet"
proof (induction s rule: EncodeToString.induct)
  case (2 a)
  then show ?case using set_b64_quad [of "of_char a" 0 0] char_less [of a]
    by (auto simp: b64_alphabet_def dest: in_set_takeD)
next
  case (3 a b)
  then show ?case using set_b64_quad [of "of_char a" "of_char b" 0] char_less
    by (auto simp: b64_alphabet_def dest: in_set_takeD)
next
  case (4 a b c s)
  then show ?case using set_b64_quad [of "of_char a" "of_char b" "of_char c"] char_less by auto
qed simp

lemma filter_newlines_b64: "set s \<subseteq> b64_alphabet \<Longrightarrow> filter (\<lambda>c. c \<noteq> CHR 0x0A \<and> c \<noteq> CHR 0x0D) s = s"
  using b64_no_space [of "CHR 0x0A"] b64_no_space [of "CHR 0x0D"]
  by (intro filter_True) (auto simp: space_start_def go_spaces_def)

lemma DecodeString_EncodeToString: "DecodeString (EncodeToString s) = Some s"
  by (simp add: DecodeString_def filter_newlines_b64 EncodeToString_alphabet decode_EncodeToString)

interpretation base64: text_codec EncodeToString DecodeString b64_alphabet
  by unfold_locales (simp_all add: DecodeString_EncodeToString EncodeToString_alphabet b64_no_space)

end
