(* ===== verification/GoCrypto.thy ===== *)
theory GoCrypto
  imports GoBase64
begin

text \<open>
  The functions of Go's \<open>crypto/sha256\<close>, \<open>crypto/hmac\<close>, \<open>encoding/hex\<close> and \<open>encoding/base32\<close>
  that the resolver verification uses, executable, on byte lists.
\<close>

unbundle bit_operations_syntax

subsection \<open>SHA-256\<close>

text \<open>
  The constants are the leading 32 bits of the fractional parts of the cube and the square roots of
  the first primes, computed: \<open>int_root b k n\<close> is the largest number below \<open>2 ^ b\<close> whose
  \<open>k\<close>-th power is at most \<open>n\<close>, and the word keeps the low 32 bits of the scaled root.
\<close>

definition primes_below :: "nat \<Rightarrow> nat list" where
  "primes_below m = filter (\<lambda>n. list_all (\<lambda>d. n mod d \<noteq> 0) [2..<n]) [2..<m]"

fun root_bits :: "nat \<Rightarrow> nat \<Rightarrow> nat \<Rightarrow> nat \<Rightarrow> nat" where
  "root_bits 0 k n r = r"
| "root_bits (Suc b) k n r = root_bits b k n (if (r + 2 ^ b) ^ k \<le> n then r + 2 ^ b else r)"

definition int_root :: "nat \<Rightarrow> nat \<Rightarrow> nat \<Rightarrow> nat" where
  "int_root b k n = root_bits b k n 0"

definition sha_K :: "uint32 list" where
  "sha_K = map (\<lambda>p. of_nat (int_root 36 3 (p * 2 ^ 96))) (primes_below 312)"

definition sha_H0 :: "uint32 list" where
  "sha_H0 = map (\<lambda>p. of_nat (int_root 36 2 (p * 2 ^ 64))) (primes_below 20)"

definition be_word :: "bytes \<Rightarrow> uint32" where
  "be_word bs = fold (\<lambda>b w. push_bit 8 w OR ucast b) bs 0"

definition be_bytes :: "nat \<Rightarrow> nat \<Rightarrow> bytes" where
  "be_bytes n v = map (\<lambda>i. of_nat (v div 256 ^ (n - 1 - i))) [0..<n]"

definition sha_pad :: "bytes \<Rightarrow> bytes" where
  "sha_pad m = m @ 0x80 # replicate ((119 - length m mod 64) mod 64) 0 @ be_bytes 8 (8 * length m)"

fun chunks :: "nat \<Rightarrow> nat \<Rightarrow> 'a list \<Rightarrow> 'a list list" where
  "chunks 0 n xs = []"
| "chunks (Suc k) n xs = take n xs # chunks k n (drop n xs)"

text \<open>The message schedule, built up with the last word in front.\<close>

fun sha_extend :: "nat \<Rightarrow> uint32 list \<Rightarrow> uint32 list" where
  "sha_extend 0 w = rev w"
| "sha_extend (Suc k) w =
     (let w15 = w ! 14; w2 = w ! 1;
          s0 = word_rotr 7 w15 XOR word_rotr 18 w15 XOR drop_bit 3 w15;
          s1 = word_rotr 17 w2 XOR word_rotr 19 w2 XOR drop_bit 10 w2
      in sha_extend k ((w ! 15 + s0 + w ! 6 + s1) # w))"

fun sha_round :: "uint32 \<times> uint32 \<Rightarrow> uint32 list \<Rightarrow> uint32 list" where
  "sha_round (k, w) [a, b, c, d, e, f, g, h] =
     (let S1 = word_rotr 6 e XOR word_rotr 11 e XOR word_rotr 25 e;
          ch = (e AND f) XOR (NOT e AND g);
          t1 = h + S1 + ch + k + w;
          S0 = word_rotr 2 a XOR word_rotr 13 a XOR word_rotr 22 a;
          maj = (a AND b) XOR (a AND c) XOR (b AND c)
      in [t1 + S0 + maj, a, b, c, d + t1, e, f, g])"
| "sha_round _ hs = hs"

definition sha_block :: "bytes \<Rightarrow> uint32 list \<Rightarrow> uint32 list" where
  "sha_block blk hs =
     (let w = sha_extend 48 (rev (map be_word (chunks 16 4 blk)))
      in map2 (+) hs (fold sha_round (zip sha_K w) hs))"

definition Sum256 :: "bytes \<Rightarrow> bytes" where
  "Sum256 m =
     (let p = sha_pad m
      in concat (map (\<lambda>w. be_bytes 4 (unat w)) (fold sha_block (chunks (length p div 64) 64 p) sha_H0)))"

subsection \<open>HMAC\<close>

definition hmac_sha256 :: "bytes \<Rightarrow> bytes \<Rightarrow> bytes" where
  "hmac_sha256 key msg =
     (let k = (if 64 < length key then Sum256 key else key);
          k = k @ replicate (64 - length k) 0
      in Sum256 (map (\<lambda>b. b XOR 0x5c) k @ Sum256 (map (\<lambda>b. b XOR 0x36) k @ msg)))"

subsection \<open>Hexadecimal text\<close>

definition hex_digit :: "nat \<Rightarrow> char" where
  "hex_digit n = char_of (if n < 10 then n + 48 else n + 87)"

definition hex_val :: "char \<Rightarrow> nat option" where
  "hex_val c =
     (let k = of_char c in
      if 48 \<le> k \<and> k \<le> 57 then Some (k - 48) else if 97 \<le> k \<and> k \<le> 102 then Some (k - 87)
      else if 65 \<le> k \<and> k \<le> 70 then Some (k - 55) else None)"

definition hex_EncodeToString :: "bytes \<Rightarrow> string" where
  "hex_EncodeToString bs = concat (map (\<lambda>b. [hex_digit (unat b div 16), hex_digit (unat b mod 16)]) bs)"

fun hex_DecodeString :: "string \<Rightarrow> bytes option" where
  "hex_DecodeString [] = Some []"
| "hex_DecodeString (a # b # s) =
     (case (hex_val a, hex_val b, hex_DecodeString s) of
        (Some x, Some y, Some bs) \<Rightarrow> Some (of_nat (x * 16 + y) # bs)
      | _ \<Rightarrow> None)"
| "hex_DecodeString _ = None"

lemma hex_val_digit [simp]: "n < 16 \<Longrightarrow> hex_val (hex_digit n) = Some n"
  by (auto simp: hex_val_def hex_digit_def Let_def)

lemma byte_less_256: "unat (b :: byte) < 256"
  using unsigned_less [of b, where 'a = nat] by simp

lemma hex_DecodeString_Encode: "hex_DecodeString (hex_EncodeToString bs) = Some bs"
proof (induction bs)
  case (Cons b bs)
  have "unat b div 16 < 16" using byte_less_256 [of b] by (simp add: less_mult_imp_div_less)
  with Cons show ?case by (simp add: hex_EncodeToString_def)
qed (simp add: hex_EncodeToString_def)

lemma hex_inj: "hex_EncodeToString a = hex_EncodeToString b \<longleftrightarrow> a = b"
  by (metis hex_DecodeString_Encode option.inject)

subsection \<open>Base32\<close>

definition b32_char :: "nat \<Rightarrow> char" where
  "b32_char n = char_of (if n < 26 then n + 65 else n + 24)"

text \<open>Groups of five bytes; the padding of a shorter last group is written out.\<close>

definition b32_group :: "bytes \<Rightarrow> string" where
  "b32_group bs =
     (let v = fold (\<lambda>b n. 256 * n + unat b) (bs @ replicate (5 - length bs) 0) 0;
          used = (case length bs of 0 \<Rightarrow> 0 | Suc 0 \<Rightarrow> 2 | Suc (Suc 0) \<Rightarrow> 4 | Suc (Suc (Suc 0)) \<Rightarrow> 5
                  | Suc (Suc (Suc (Suc 0))) \<Rightarrow> 7 | _ \<Rightarrow> 8)
      in take used (map (\<lambda>i. b32_char (v div 32 ^ (7 - i) mod 32)) [0..<8]) @ replicate (8 - used) pad_char)"

fun b32_EncodeToString :: "bytes \<Rightarrow> string" where
  "b32_EncodeToString (a # b # c # d # e # bs) = b32_group [a, b, c, d, e] @ b32_EncodeToString bs"
| "b32_EncodeToString [] = []"
| "b32_EncodeToString bs = b32_group bs"

end
