(* ===== verification/Sorting.thy ===== *)
theory Sorting
  imports Prelude
begin

text \<open>
  The hand-written sort of \<open>autoscan.go\<close> and \<open>scanner.go\<close>: two nested loops that swap
  neighbours. It is written once over the comparison; the contract \<open>swap_order\<close> says that the
  comparison is the strict order of some key, and gives that the loops sort stably by this key.
\<close>

subsection \<open>The loops\<close>

definition swap_at :: "nat \<Rightarrow> 'a list \<Rightarrow> 'a list" where
  "swap_at j xs = xs[j := xs ! (j - 1), j - 1 := xs ! j]"

text \<open>\<open>for j := i; j > 0; j--\<close>, which goes on after the first pair that is in order.\<close>

fun swap_down :: "('a \<Rightarrow> 'a \<Rightarrow> bool) \<Rightarrow> nat \<Rightarrow> 'a list \<Rightarrow> 'a list" where
  "swap_down before 0 xs = xs"
| "swap_down before (Suc j) xs =
     swap_down before j (if before (xs ! Suc j) (xs ! j) then swap_at (Suc j) xs else xs)"

definition swap_sort :: "('a \<Rightarrow> 'a \<Rightarrow> bool) \<Rightarrow> 'a list \<Rightarrow> 'a list" where
  "swap_sort before xs = fold (swap_down before) [1..<length xs] xs"

subsection \<open>Swapping neighbours\<close>

lemma swap_at_split:
  assumes "Suc j < length xs"
  shows "xs = take j xs @ xs ! j # xs ! Suc j # drop (Suc (Suc j)) xs"
    and "swap_at (Suc j) xs = take j xs @ xs ! Suc j # xs ! j # drop (Suc (Suc j)) xs"
proof -
  show xs: "xs = take j xs @ xs ! j # xs ! Suc j # drop (Suc (Suc j)) xs"
    using assms by (metis Cons_nth_drop_Suc Suc_lessD append_take_drop_id)
  have "length (take j xs) = j" using assms by simp
  then show "swap_at (Suc j) xs = take j xs @ xs ! Suc j # xs ! j # drop (Suc (Suc j)) xs"
    unfolding swap_at_def
    by (subst (1) xs) (simp add: list_update_append nth_append)
qed

lemma length_swap_at [simp]: "length (swap_at j xs) = length xs"
  by (simp add: swap_at_def)

lemma length_swap_down [simp]: "length (swap_down b j xs) = length xs"
  by (induction j arbitrary: xs) simp_all

lemma length_swap_sort [simp]: "length (swap_sort b xs) = length xs"
proof -
  have "length (fold (swap_down b) js xs) = length xs" for js by (induction js arbitrary: xs) simp_all
  then show ?thesis by (simp add: swap_sort_def)
qed

lemma mset_swap_at: "Suc j < length xs \<Longrightarrow> mset (swap_at (Suc j) xs) = mset xs"
  using swap_at_split [of j xs] by (metis add_mset_commute mset.simps(2) mset_append)

lemma mset_swap_down: "j < length xs \<Longrightarrow> mset (swap_down b j xs) = mset xs"
  by (induction j arbitrary: xs) (simp_all add: mset_swap_at)

lemma nth_swap_at:
  "Suc j < length xs \<Longrightarrow> swap_at (Suc j) xs ! k =
     (if k = Suc j then xs ! j else if k = j then xs ! Suc j else xs ! k)"
  by (simp add: swap_at_def nth_list_update)

subsection \<open>The contract of the comparison\<close>

locale swap_order =
  fixes before :: "'a \<Rightarrow> 'a \<Rightarrow> bool" and key :: "'a \<Rightarrow> 'k :: linorder"
  assumes before_key: "before x y \<longleftrightarrow> key x < key y"
begin

lemma filter_swap_down:
  "j < length xs \<Longrightarrow> filter (\<lambda>x. k = key x) (swap_down before j xs) = filter (\<lambda>x. k = key x) xs"
proof (induction j arbitrary: xs)
  case (Suc j)
  have "filter (\<lambda>x. k = key x) (swap_at (Suc j) xs) = filter (\<lambda>x. k = key x) xs"
    if "key (xs ! Suc j) < key (xs ! j)"
    using that arg_cong [OF swap_at_split(1) [OF Suc.prems], of "filter (\<lambda>x. k = key x)"]
      arg_cong [OF swap_at_split(2) [OF Suc.prems], of "filter (\<lambda>x. k = key x)"]
    by (auto split: if_splits)
  with Suc show ?case by (simp add: before_key)
qed simp

lemma swap_down_ordered:
  assumes "i < length xs" and "j \<le> i" and "\<forall>a b. a < b \<and> b \<le> i \<and> b \<noteq> j \<longrightarrow> key (xs ! a) \<le> key (xs ! b)"
  shows "\<forall>a b. a < b \<and> b \<le> i \<longrightarrow> key (swap_down before j xs ! a) \<le> key (swap_down before j xs ! b)"
  using assms
proof (induction j arbitrary: xs)
  case (Suc j)
  let ?ys = "if before (xs ! Suc j) (xs ! j) then swap_at (Suc j) xs else xs"
  have "key (?ys ! a) \<le> key (?ys ! b)" if ab: "a < b" "b \<le> i" "b \<noteq> j" for a b
  proof (cases "key (xs ! Suc j) < key (xs ! j)")
    case True
    with Suc.prems ab show ?thesis
      by (auto simp: before_key nth_swap_at less_Suc_eq)
  next
    case False
    then have "key (xs ! a) \<le> key (xs ! Suc j)" if "a < Suc j"
      using that Suc.prems(2,3) by (metis Suc_leD Suc_n_not_le_n le_less_trans less_Suc_eq lessI linorder_not_less nat_neq_iff order_trans)
    with False Suc.prems(3) ab show ?thesis by (cases "b = Suc j") (auto simp: before_key)
  qed
  with Suc.IH [of ?ys] Suc.prems(1,2) show ?case by simp
qed simp

lemma swap_sort_upto:
  assumes "n \<le> length xs"
  defines "ys \<equiv> fold (swap_down before) [1..<n] xs"
  shows "length ys = length xs \<and> mset ys = mset xs \<and>
    (\<forall>k. filter (\<lambda>x. k = key x) ys = filter (\<lambda>x. k = key x) xs) \<and>
    (\<forall>a b. a < b \<and> b < n \<longrightarrow> key (ys ! a) \<le> key (ys ! b))"
  unfolding ys_def using assms(1)
proof (induction n)
  case (Suc n)
  let ?ys = "fold (swap_down before) [1..<n] xs"
  have IH: "length ?ys = length xs" "mset ?ys = mset xs" "\<And>k. filter (\<lambda>x. k = key x) ?ys = filter (\<lambda>x. k = key x) xs"
    "\<And>a b. a < b \<Longrightarrow> b < n \<Longrightarrow> key (?ys ! a) \<le> key (?ys ! b)"
    using Suc by auto
  show ?case
  proof (cases "n = 0")
    case False
    have n: "n < length ?ys" using Suc.prems IH(1) by simp
    have "\<forall>a b. a < b \<and> b \<le> n \<longrightarrow> key (swap_down before n ?ys ! a) \<le> key (swap_down before n ?ys ! b)"
      by (rule swap_down_ordered [OF n]) (use IH(4) in auto)
    moreover have "fold (swap_down before) [1..<Suc n] xs = swap_down before n ?ys" using False by simp
    ultimately show ?thesis
      using IH(1-3) mset_swap_down [OF n] filter_swap_down [OF n] by (simp add: less_Suc_eq_le)
  qed simp
qed simp

lemma swap_sort_sorts: "swap_sort before xs = sort_key key xs"
proof -
  let ?ys = "swap_sort before xs"
  have "sorted (map key ?ys)"
    using swap_sort_upto [of "length xs" xs] by (auto simp: swap_sort_def sorted_iff_nth_mono_less)
  then show ?thesis
    using swap_sort_upto [of "length xs" xs] unfolding swap_sort_def
    by (intro sym [OF properties_for_sort_key]) auto
qed

end

end
