(* ===== verification/Scanner.thy ===== *)
theory Scanner
  imports Pool DnsMsg GoCrypto Sorting "HOL-Library.State_Monad"
begin

text \<open>
  \<open>scanner.go\<close>: the compatibility scan of a resolver (seven tests, six points), the verification
  by an HMAC challenge, and the loops that run either over a list of resolvers with a number of
  workers. A test is a computation in the state monad over the exchanges made and the random
  numbers used so far; building the DNS query is the DNS library's.
\<close>

subsection \<open>Probing a resolver\<close>

record probe_env =
  pe_build :: "string \<Rightarrow> uint16 \<Rightarrow> uint16 \<Rightarrow> bytes option"
  pe_net :: "nat \<Rightarrow> transport"
  pe_rand :: "nat \<Rightarrow> nat"
  pe_latency :: int

type_synonym 'a probe = "(nat \<times> nat, 'a) state"

abbreviation TypeA :: uint16 where "TypeA \<equiv> 1"
abbreviation TypeNS :: uint16 where "TypeNS \<equiv> 2"
abbreviation TypeTXT :: uint16 where "TypeTXT \<equiv> 16"

definition draw :: "probe_env \<Rightarrow> nat \<Rightarrow> nat probe" where
  "draw env n = State (\<lambda>(k, i). (pe_rand env i mod n, (k, i + 1)))"

fun draw_list :: "probe_env \<Rightarrow> nat \<Rightarrow> nat \<Rightarrow> nat list probe" where
  "draw_list env 0 n = State_Monad.return []"
| "draw_list env (Suc l) n = do { d \<leftarrow> draw env n; ds \<leftarrow> draw_list env l n; State_Monad.return (d # ds) }"

definition label_chars :: string where
  "label_chars = ''abcdefghijklmnopqrstuvwxyz0123456789''"

definition randLabel :: "probe_env \<Rightarrow> nat \<Rightarrow> string probe" where
  "randLabel env n = do { ds \<leftarrow> draw_list env n (length label_chars);
                          State_Monad.return (map (\<lambda>d. label_chars ! d) ds) }"

text \<open>A failed \<open>Pack\<close> leaves the query empty; it is sent all the same.\<close>

definition buildScanQuery :: "probe_env \<Rightarrow> string \<Rightarrow> uint16 \<Rightarrow> uint16 \<Rightarrow> bytes" where
  "buildScanQuery env name qtype edns = (case pe_build env name qtype edns of None \<Rightarrow> [] | Some q \<Rightarrow> q)"

definition sendResolverQuery :: "transport \<Rightarrow> bytes \<Rightarrow> Resolver \<Rightarrow> bool \<Rightarrow> int \<Rightarrow> goerr + bytes" where
  "sendResolverQuery net data r doh timeout =
     (if doh then sendQueryDoH net data (URL r) timeout else sendQueryUDP net data (Addr r) timeout)"

definition scanSendFn :: "bool \<Rightarrow> transport \<Rightarrow> bytes \<Rightarrow> Resolver \<Rightarrow> goerr + bytes" where
  "scanSendFn doh net data r =
     (if doh then sendQueryDoH net data (URL r) upstreamTimeout
      else sendQueryUDP net data (Addr r) upstreamTimeout)"

definition exchange_one :: "probe_env \<Rightarrow> (transport \<Rightarrow> goerr + bytes) \<Rightarrow> (goerr + bytes) probe" where
  "exchange_one env send = State (\<lambda>(k, i). (send (pe_net env k), (k + 1, i)))"

definition ask :: "probe_env \<Rightarrow> bool \<Rightarrow> Resolver \<Rightarrow> string \<Rightarrow> uint16 \<Rightarrow> uint16 \<Rightarrow> (goerr + bytes) probe" where
  "ask env doh r name qtype edns =
     exchange_one env (\<lambda>net. scanSendFn doh net (buildScanQuery env name qtype edns) r)"

definition getRcode :: "bytes \<Rightarrow> int" where
  "getRcode resp = (if 4 \<le> length resp then uint (resp ! 3 AND 0x0F) else - 1)"

definition getAncount :: "bytes \<Rightarrow> int" where
  "getAncount resp = (if 8 \<le> length resp then 256 * uint (resp ! 6) + uint (resp ! 7) else 0)"

definition isTimeout :: "goerr \<Rightarrow> bool" where
  "isTimeout e = (case err_Timeout e of Some b \<Rightarrow> b | None \<Rightarrow> Contains (err_msg e) ''timeout'')"

definition answered :: "goerr + bytes \<Rightarrow> bool" where
  "answered res = (case res of Inl _ \<Rightarrow> False | Inr resp \<Rightarrow> 12 \<le> length resp)"

definition parentDomain :: "string \<Rightarrow> string" where
  "parentDomain testDomain =
     (let parts = SplitN2 testDomain (CHR ''.'') in if length parts = 2 then parts ! 1 else testDomain)"

text \<open>The status after the connectivity test; \<open>None\<close> lets the scan go on.\<close>

definition failed_status :: "goerr + bytes \<Rightarrow> string option" where
  "failed_status res =
     (case res of Inl e \<Rightarrow> Some (if isTimeout e then ''TIMEOUT'' else ''ERROR'')
      | Inr resp \<Rightarrow> if length resp < 12 then Some ''ERROR'' else None)"

subsection \<open>Long names\<close>

text \<open>The loop that cuts a payload into labels; it would not end for labels of length 0.\<close>

partial_function (option) dotify_labels :: "string \<Rightarrow> nat \<Rightarrow> string list option" where
  "dotify_labels payload maxLabel =
     (if maxLabel < length payload
      then Option.bind (dotify_labels (drop maxLabel payload) maxLabel) (\<lambda>ls. Some (take maxLabel payload # ls))
      else Some (if 0 < length payload then [payload] else []))"

definition dotifyBase32 :: "string \<Rightarrow> nat \<Rightarrow> string option" where
  "dotifyBase32 payload maxLabel = map_option (\<lambda>ls. Join ls ''.'') (dotify_labels payload maxLabel)"

definition TrimRight :: "string \<Rightarrow> char \<Rightarrow> string" where
  "TrimRight s c = rev (dropWhile (\<lambda>x. x = c) (rev s))"

subsection \<open>The seven tests\<close>

definition test_ns :: "probe_env \<Rightarrow> bool \<Rightarrow> Resolver \<Rightarrow> string \<Rightarrow> bool probe" where
  "test_ns env doh r testDomain =
     do { res \<leftarrow> ask env doh r (parentDomain testDomain) TypeNS 0;
          (case res of
             Inl _ \<Rightarrow> State_Monad.return False
           | Inr resp \<Rightarrow>
               if length resp < 12 \<or> getRcode resp \<noteq> 0 then State_Monad.return False
               else do { res2 \<leftarrow> ask env doh r (''ns.'' @ parentDomain testDomain) TypeA 0;
                         State_Monad.return (case res2 of Inl _ \<Rightarrow> False | Inr resp2 \<Rightarrow> getRcode resp2 = 0) }) }"

definition test_txt :: "probe_env \<Rightarrow> bool \<Rightarrow> Resolver \<Rightarrow> string \<Rightarrow> bool probe" where
  "test_txt env doh r testDomain =
     do { l \<leftarrow> randLabel env 8;
          res \<leftarrow> ask env doh r (l @ ''.'' @ parentDomain testDomain) TypeTXT 0;
          State_Monad.return (answered res) }"

fun test_nested :: "nat \<Rightarrow> probe_env \<Rightarrow> bool \<Rightarrow> Resolver \<Rightarrow> string \<Rightarrow> bool probe" where
  "test_nested 0 env doh r testDomain = State_Monad.return False"
| "test_nested (Suc n) env doh r testDomain =
     do { l1 \<leftarrow> randLabel env 8; l2 \<leftarrow> randLabel env 8;
          res \<leftarrow> ask env doh r (l1 @ ''.'' @ l2 @ ''.'' @ testDomain) TypeA 0;
          (if answered res then State_Monad.return True else test_nested n env doh r testDomain) }"

definition test_dpi :: "probe_env \<Rightarrow> bool \<Rightarrow> Resolver \<Rightarrow> string \<Rightarrow> bool probe" where
  "test_dpi env doh r testDomain =
     do { payload \<leftarrow> draw_list env 100 256;
          (let b32 = ToLower (TrimRight (b32_EncodeToString (map of_nat payload)) pad_char);
               dotified = (case dotifyBase32 b32 57 of None \<Rightarrow> [] | Some d \<Rightarrow> d)
           in do { res \<leftarrow> ask env doh r (dotified @ ''.'' @ testDomain) TypeTXT 0;
                   State_Monad.return (answered res) }) }"

fun test_edns :: "uint16 list \<Rightarrow> int \<Rightarrow> probe_env \<Rightarrow> bool \<Rightarrow> Resolver \<Rightarrow> string \<Rightarrow> int probe" where
  "test_edns [] maxEdns env doh r testDomain = State_Monad.return maxEdns"
| "test_edns (sz # szs) maxEdns env doh r testDomain =
     do { l \<leftarrow> randLabel env 8;
          res \<leftarrow> ask env doh r (l @ ''.'' @ testDomain) TypeTXT sz;
          (case res of
             Inl _ \<Rightarrow> State_Monad.return maxEdns
           | Inr resp \<Rightarrow>
               if 12 \<le> length resp \<and> getRcode resp \<noteq> 1
               then test_edns szs (uint sz) env doh r testDomain
               else State_Monad.return maxEdns) }"

fun test_nx :: "nat \<Rightarrow> int \<Rightarrow> probe_env \<Rightarrow> bool \<Rightarrow> Resolver \<Rightarrow> int probe" where
  "test_nx 0 nxCorrect env doh r = State_Monad.return nxCorrect"
| "test_nx (Suc n) nxCorrect env doh r =
     do { l \<leftarrow> randLabel env 8;
          res \<leftarrow> ask env doh r (''nxd-'' @ l @ ''.invalid'') TypeA 0;
          (case res of
             Inl _ \<Rightarrow> test_nx n nxCorrect env doh r
           | Inr resp \<Rightarrow>
               test_nx n (if getRcode resp = 3 \<or> (getRcode resp = 0 \<and> getAncount resp = 0)
                          then nxCorrect + 1 else nxCorrect) env doh r) }"

subsection \<open>The compatibility scan\<close>

record ScanResult =
  sr_Resolver :: Resolver
  sr_Status :: string
  sr_LatencyMs :: int
  sr_NSSupport :: bool
  sr_TXTSupport :: bool
  sr_RandomSubdomain :: bool
  sr_TunnelRealism :: bool
  sr_EDNSSupport :: bool
  sr_EDNSMax :: int
  sr_NXDomainCorrect :: bool
  sr_Score :: int
  sr_Details :: string

definition no_result :: "Resolver \<Rightarrow> string \<Rightarrow> int \<Rightarrow> ScanResult" where
  "no_result r status latency =
     \<lparr>sr_Resolver = r, sr_Status = status, sr_LatencyMs = latency, sr_NSSupport = False,
      sr_TXTSupport = False, sr_RandomSubdomain = False, sr_TunnelRealism = False,
      sr_EDNSSupport = False, sr_EDNSMax = 0, sr_NXDomainCorrect = False, sr_Score = 0,
      sr_Details = ''''\<rparr>"

text \<open>The marks of the details are the UTF-8 encodings of a check mark and a cross.\<close>

definition mark :: "string \<Rightarrow> bool \<Rightarrow> string" where
  "mark name ok = name @ [CHR 0xE2, CHR 0x9C, if ok then CHR 0x93 else CHR 0x97]"

fun add_test :: "string \<Rightarrow> bool \<Rightarrow> int \<times> string list \<Rightarrow> int \<times> string list" where
  "add_test name ok (sc, details) = (if ok then sc + 1 else sc, details @ [mark name ok])"

text \<open>
  What the six scored tests add up to; \<open>maxEdns\<close> is the largest payload size that worked and
  \<open>nx\<close> the number of correct answers for names that do not exist.
\<close>

definition scan_result :: "Resolver \<Rightarrow> int \<Rightarrow> bool \<Rightarrow> bool \<Rightarrow> bool \<Rightarrow> bool \<Rightarrow> int \<Rightarrow> int \<Rightarrow> ScanResult" where
  "scan_result r latency ns txt rnd dpi maxEdns nx =
     (let acc = add_test ''DPI'' dpi (add_test ''RND'' rnd (add_test ''TXT'' txt (add_test ''NS'' ns (0, []))));
          acc = (if 0 < maxEdns
                 then (fst acc + 1, snd acc @ [mark ''EDNS'' True @ ''('' @ Itoa maxEdns @ '')''])
                 else (fst acc, snd acc @ [mark ''EDNS'' False]));
          acc = add_test ''NXD'' (2 \<le> nx) acc
      in \<lparr>sr_Resolver = r, sr_Status = ''WORKING'', sr_LatencyMs = latency,
          sr_NSSupport = ns, sr_TXTSupport = txt, sr_RandomSubdomain = rnd, sr_TunnelRealism = dpi,
          sr_EDNSSupport = (0 < maxEdns), sr_EDNSMax = maxEdns, sr_NXDomainCorrect = (2 \<le> nx),
          sr_Score = fst acc, sr_Details = Join (snd acc) '' ''\<rparr>)"

definition scan_tests :: "probe_env \<Rightarrow> bool \<Rightarrow> Resolver \<Rightarrow> string \<Rightarrow> ScanResult probe" where
  "scan_tests env doh r testDomain =
     do { ns \<leftarrow> test_ns env doh r testDomain;
          txt \<leftarrow> test_txt env doh r testDomain;
          rnd \<leftarrow> test_nested 2 env doh r testDomain;
          dpi \<leftarrow> test_dpi env doh r testDomain;
          maxEdns \<leftarrow> test_edns [512, 900, 1232] 0 env doh r testDomain;
          nx \<leftarrow> test_nx 3 0 env doh r;
          State_Monad.return (scan_result r (pe_latency env) ns txt rnd dpi maxEdns nx) }"

definition scanResolver :: "probe_env \<Rightarrow> bool \<Rightarrow> Resolver \<Rightarrow> string \<Rightarrow> ScanResult probe" where
  "scanResolver env doh r testDomain =
     do { l \<leftarrow> randLabel env 8;
          res \<leftarrow> ask env doh r (l @ ''.'' @ parentDomain testDomain) TypeA 0;
          (case failed_status res of
             Some status \<Rightarrow> State_Monad.return (no_result r status (pe_latency env))
           | None \<Rightarrow> scan_tests env doh r testDomain) }"

subsection \<open>The verification\<close>

record VerifyResult =
  vr_Resolver :: Resolver
  vr_Status :: string
  vr_Verified :: bool
  vr_LatencyMs :: int

definition probeTimeout :: int where
  "probeTimeout = 1500 * 10 ^ 6"

fun first_txt :: "rr list \<Rightarrow> string option" where
  "first_txt [] = None"
| "first_txt (RR_TXT _ txt # _) = Some (Join txt '''')"
| "first_txt (_ # rrs) = first_txt rrs"

definition challenge_met :: "unpacker \<Rightarrow> bytes \<Rightarrow> bytes \<Rightarrow> goerr + bytes \<Rightarrow> bool" where
  "challenge_met unpack pubkey nonce res =
     (case res of Inl _ \<Rightarrow> False
      | Inr vresp \<Rightarrow>
          if length vresp < 12 then False
          else case unpack vresp of None \<Rightarrow> False
               | Some msg \<Rightarrow>
                   (case first_txt (Answer msg) of None \<Rightarrow> False
                    | Some txtData \<Rightarrow> txtData = hex_EncodeToString (hmac_sha256 pubkey nonce)))"

definition verifyResolver :: "unpacker \<Rightarrow> probe_env \<Rightarrow> Resolver \<Rightarrow> string \<Rightarrow> bytes \<Rightarrow> bool \<Rightarrow> VerifyResult probe" where
  "verifyResolver unpack env r testDomain pubkey doh =
     do { l \<leftarrow> randLabel env 8;
          res \<leftarrow> exchange_one env (\<lambda>net. sendResolverQuery net
                   (buildScanQuery env (l @ ''.'' @ parentDomain testDomain) TypeA 0) r doh probeTimeout);
          (case failed_status res of
             Some status \<Rightarrow> State_Monad.return
               \<lparr>vr_Resolver = r, vr_Status = status, vr_Verified = False, vr_LatencyMs = pe_latency env\<rparr>
           | None \<Rightarrow>
               do { ds \<leftarrow> draw_list env 16 256;
                    (let nonce = map of_nat ds
                     in do { vres \<leftarrow> exchange_one env (\<lambda>net. sendResolverQuery net
                               (buildScanQuery env (''nzv.'' @ hex_EncodeToString nonce @ ''.'' @ testDomain) TypeTXT 0)
                               r doh upstreamTimeout);
                             State_Monad.return
                               \<lparr>vr_Resolver = r, vr_Status = ''WORKING'',
                                vr_Verified = challenge_met unpack pubkey nonce vres,
                                vr_LatencyMs = pe_latency env\<rparr> }) }) }"

subsection \<open>Workers\<close>

text \<open>
  The loops that start one goroutine per resolver behind a semaphore of \<open>workers\<close> slots and wait
  for all. The goroutines finish in some order, given as the list of the resolvers' indices. A
  semaphore without slots is never acquired, and a channel of negative size panics.
\<close>

definition run_workers :: "int \<Rightarrow> (nat \<Rightarrow> 'r \<Rightarrow> 'b) \<Rightarrow> nat list \<Rightarrow> 'r list \<Rightarrow> 'b list outcome" where
  "run_workers workers f order resolvers =
     (if workers < 0 then Panic
      else if workers = 0 \<and> resolvers \<noteq> [] then Blocked
      else Done (map (\<lambda>i. f i (resolvers ! i)) order))"

definition verify_one :: "unpacker \<Rightarrow> (nat \<Rightarrow> probe_env) \<Rightarrow> string \<Rightarrow> bytes \<Rightarrow> bool \<Rightarrow> nat \<Rightarrow> Resolver \<Rightarrow> VerifyResult" where
  "verify_one unpack envs testDomain pubkey doh i r =
     fst (run_state (verifyResolver unpack (envs i) r testDomain pubkey doh) (0, 0))"

definition verifyResolversQuiet :: "unpacker \<Rightarrow> (nat \<Rightarrow> probe_env) \<Rightarrow> nat list \<Rightarrow> Resolver list \<Rightarrow> string
    \<Rightarrow> bool \<Rightarrow> int \<Rightarrow> bytes \<Rightarrow> VerifyResult list outcome" where
  "verifyResolversQuiet unpack envs order resolvers testDomain doh workers pubkey =
     run_workers workers (verify_one unpack envs testDomain pubkey doh) order resolvers"

definition scanResolversQuiet :: "(nat \<Rightarrow> probe_env) \<Rightarrow> nat list \<Rightarrow> Resolver list \<Rightarrow> string
    \<Rightarrow> bool \<Rightarrow> int \<Rightarrow> ScanResult list outcome" where
  "scanResolversQuiet envs order resolvers testDomain doh workers =
     run_workers workers (\<lambda>i r. fst (run_state (scanResolver (envs i) doh r testDomain) (0, 0))) order resolvers"

text \<open>
  What the goroutines of the early-ready scan have shared after some results: the verified
  resolvers so far, and the list given to \<open>onReady\<close> once there were enough.
\<close>

fun early_collect :: "int \<Rightarrow> VerifyResult list \<Rightarrow> Resolver list \<Rightarrow> Resolver list option \<Rightarrow> Resolver list \<times> Resolver list option" where
  "early_collect target [] verified ready = (verified, ready)"
| "early_collect target (res # results) verified ready =
     (if vr_Verified res then
        (let verified = verified @ [vr_Resolver res] in
         if target \<le> int (length verified) \<and> ready = None
         then early_collect target results verified (Some verified)
         else early_collect target results verified ready)
      else early_collect target results verified ready)"

definition working_resolvers :: "VerifyResult list \<Rightarrow> Resolver list" where
  "working_resolvers results = map vr_Resolver (filter (\<lambda>res. vr_Status res = ''WORKING'') results)"

text \<open>
  A goroutine that is stuck in \<open>onReady\<close> never gives its slot back nor leaves the wait group, so
  the scan is stuck with it.
\<close>

definition verifyResolversWithEarlyReady :: "unpacker \<Rightarrow> (nat \<Rightarrow> probe_env) \<Rightarrow> nat list \<Rightarrow> Resolver list
    \<Rightarrow> string \<Rightarrow> bool \<Rightarrow> int \<Rightarrow> int \<Rightarrow> bytes \<Rightarrow> (Resolver list \<Rightarrow> 's \<Rightarrow> unit outcome \<times> 's) \<Rightarrow> 's
    \<Rightarrow> VerifyResult list outcome \<times> 's" where
  "verifyResolversWithEarlyReady unpack envs order resolvers testDomain doh workers targetCount pubkey onReady s =
     (let target = (if targetCount \<le> 0 then 20 else targetCount) in
      case verifyResolversQuiet unpack envs order resolvers testDomain doh workers pubkey of
        Done results \<Rightarrow>
          (case early_collect target results [] None of
             (_, Some ready) \<Rightarrow> and_then (onReady ready s) (\<lambda>_ s. (Done results, s))
           | (verified, None) \<Rightarrow>
               (let ready = (if verified = [] then working_resolvers results else verified)
                in if ready = [] then (Done results, s)
                   else and_then (onReady ready s) (\<lambda>_ s. (Done results, s))))
      | Blocked \<Rightarrow> (Blocked, s)
      | Panic \<Rightarrow> (Panic, s))"

subsection \<open>The summary of a scan\<close>

definition better_scan :: "ScanResult \<Rightarrow> ScanResult \<Rightarrow> bool" where
  "better_scan a b \<longleftrightarrow> sr_Score b < sr_Score a \<or> (sr_Score a = sr_Score b \<and> sr_LatencyMs a < sr_LatencyMs b)"

definition best_scans :: "ScanResult list \<Rightarrow> ScanResult list" where
  "best_scans results = take 5 (swap_sort better_scan (filter (\<lambda>r. sr_Status r = ''WORKING'') results))"

text \<open>
  \<open>runScan\<close>: the results in the order the goroutines finish, the three counts of the summary, and the list of
  the best; everything else it does is printing.
\<close>

definition scan_summary :: "ScanResult list \<Rightarrow> nat \<times> nat \<times> nat" where
  "scan_summary results =
     fold (\<lambda>r (working, timeouts, errors).
        if sr_Status r = ''WORKING'' then (Suc working, timeouts, errors)
        else if sr_Status r = ''TIMEOUT'' then (working, Suc timeouts, errors)
        else (working, timeouts, Suc errors)) results (0, 0, 0)"

definition runScan :: "(nat \<Rightarrow> probe_env) \<Rightarrow> nat list \<Rightarrow> Resolver list \<Rightarrow> string \<Rightarrow> bool \<Rightarrow> int
    \<Rightarrow> (ScanResult list \<times> (nat \<times> nat \<times> nat) \<times> ScanResult list) outcome" where
  "runScan envs order resolvers testDomain doh workers =
     (case run_workers workers (\<lambda>i r. fst (run_state (scanResolver (envs i) doh r testDomain) (0, 0))) order resolvers of
        Done results \<Rightarrow>
          (let summary = scan_summary results
           in Done (results, summary, if 0 < fst summary then best_scans results else []))
      | Blocked \<Rightarrow> Blocked | Panic \<Rightarrow> Panic)"

lemma scan_summary_fold:
  "fold (\<lambda>r (working, timeouts, errors).
        if sr_Status r = ''WORKING'' then (Suc working, timeouts, errors)
        else if sr_Status r = ''TIMEOUT'' then (working, Suc timeouts, errors)
        else (working, timeouts, Suc errors)) results (w, t, e) =
   (w + length (filter (\<lambda>r. sr_Status r = ''WORKING'') results),
    t + length (filter (\<lambda>r. sr_Status r = ''TIMEOUT'') results),
    e + length (filter (\<lambda>r. sr_Status r \<noteq> ''WORKING'' \<and> sr_Status r \<noteq> ''TIMEOUT'') results))"
  by (induction results arbitrary: w t e) auto

lemma scan_summary_counts:
  "scan_summary results = (w, t, e) \<Longrightarrow> w + t + e = length results \<and> (w = 0 \<longleftrightarrow> best_scans results = [])"
proof -
  assume s: "scan_summary results = (w, t, e)"
  have "length (filter (\<lambda>r. sr_Status r = ''WORKING'') results) +
      length (filter (\<lambda>r. sr_Status r = ''TIMEOUT'') results) +
      length (filter (\<lambda>r. sr_Status r \<noteq> ''WORKING'' \<and> sr_Status r \<noteq> ''TIMEOUT'') results) = length results"
    by (induction results) auto
  moreover have "best_scans results = [] \<longleftrightarrow> filter (\<lambda>r. sr_Status r = ''WORKING'') results = []"
    by (metis best_scans_def take_eq_Nil zero_neq_numeral length_0_conv length_swap_sort)
  ultimately show ?thesis using s by (auto simp: scan_summary_def scan_summary_fold)
qed

end
