(* ===== verification/FindNS.thy ===== *)
theory FindNS
  imports Pool
begin

text \<open>
  \<open>findns.go\<close>: the external scanner. Running the program and decoding its JSON output are answers
  of the operating system and the JSON library; the model has the command lines and the two
  conversions of the decoded entries.
\<close>

record findnsEntry =
  e_IP :: string
  e_URL :: string

record FindNSScanner =
  f_Binary :: string
  f_Domain :: string
  f_Pubkey :: string
  f_DoH :: bool
  f_Workers :: int
  f_TopN :: int

text \<open>
  What the system answers to one scan: the temporary directory, whether the program ran, and the
  passed entries of the decoded output file.
\<close>

record findns_sys =
  fs_tmpDir :: "string option"
  fs_run :: "string list \<Rightarrow> bool"
  fs_passed :: "findnsEntry list option"

datatype findns_error = NoBinary | NoDomain | NoTempDir | ScanFailed | BadOutput

definition findns_args :: "FindNSScanner \<Rightarrow> string \<Rightarrow> string \<Rightarrow> string list" where
  "findns_args f outputFile inputFile =
     [''scan'', ''--domain'', f_Domain f, ''-o'', outputFile] @
     (if inputFile \<noteq> '''' then [''-i'', inputFile] else []) @
     (if f_Pubkey f \<noteq> '''' then [''--pubkey'', f_Pubkey f] else []) @
     (if f_DoH f then [''--doh''] else []) @
     (if 0 < f_Workers f then [''--workers'', Itoa (f_Workers f)] else []) @
     (if 0 < f_TopN f then [''--top'', Itoa (f_TopN f)] else [])"

fun scan_entries :: "bool \<Rightarrow> findnsEntry list \<Rightarrow> Resolver list" where
  "scan_entries doh [] = []"
| "scan_entries doh (e # es) =
     (if doh \<and> e_URL e \<noteq> '''' then [\<lparr>Addr = '''', URL = e_URL e\<rparr>]
      else if e_IP e \<noteq> '''' then [\<lparr>Addr = e_IP e @ '':53'', URL = ''''\<rparr>] else []) @ scan_entries doh es"

definition Scan :: "findns_sys \<Rightarrow> FindNSScanner \<Rightarrow> string \<Rightarrow> findns_error + Resolver list" where
  "Scan sys f inputFile =
     (if f_Binary f = '''' then Inl NoBinary
      else if f_Domain f = '''' then Inl NoDomain
      else case fs_tmpDir sys of None \<Rightarrow> Inl NoTempDir
      | Some tmpDir \<Rightarrow>
          (let args = findns_args f (tmpDir @ ''/results.json'') inputFile
           in if \<not> fs_run sys (f_Binary f # args) then Inl ScanFailed
              else case fs_passed sys of None \<Rightarrow> Inl BadOutput
                   | Some passed \<Rightarrow> Inr (scan_entries (f_DoH f) passed)))"

definition IsAvailable :: "(string \<Rightarrow> bool) \<Rightarrow> FindNSScanner \<Rightarrow> bool" where
  "IsAvailable lookPath f \<longleftrightarrow> f_Binary f \<noteq> '''' \<and> lookPath (f_Binary f)"

fun output_entries :: "bool \<Rightarrow> findnsEntry list \<Rightarrow> Resolver list" where
  "output_entries doh [] = []"
| "output_entries doh (e # es) =
     (if doh \<and> e_URL e \<noteq> '''' then [\<lparr>Addr = '''', URL = e_URL e\<rparr>]
      else if e_IP e \<noteq> '''' then
        [\<lparr>Addr = (if Contains (e_IP e) '':'' then e_IP e else e_IP e @ '':53''), URL = ''''\<rparr>]
      else []) @ output_entries doh es"

text \<open>\<open>ParseFindNSOutput\<close> on the decoded file; \<open>None\<close> is a file that cannot be read or decoded.\<close>

definition ParseFindNSOutput :: "findnsEntry list option \<Rightarrow> bool \<Rightarrow> Resolver list option" where
  "ParseFindNSOutput passed doh = map_option (output_entries doh) passed"

subsection \<open>The bundled list\<close>

text \<open>
  \<open>ExportLocalResolvers\<close>: a temporary file that \<open>findns local\<close> fills. The result is the file, which the caller
  removes, or an error, and what is left of the file: its name when it is still there.
\<close>

datatype export_error = NoTempFile | LocalFailed

definition ExportLocalResolvers :: "string option \<Rightarrow> (string list \<Rightarrow> bool) \<Rightarrow> FindNSScanner \<Rightarrow>
    (export_error + string) \<times> string option" where
  "ExportLocalResolvers createTemp run f =
     (case createTemp of None \<Rightarrow> (Inl NoTempFile, None)
      | Some tmpFile \<Rightarrow>
          if \<not> run [f_Binary f, ''local'', ''-o'', tmpFile] then (Inl LocalFailed, None)
          else (Inr tmpFile, Some tmpFile))"

lemma export_leaves_nothing: "fst (ExportLocalResolvers createTemp run f) = Inl e \<Longrightarrow> snd (ExportLocalResolvers createTemp run f) = None"
  by (auto simp: ExportLocalResolvers_def split: option.splits if_splits)

subsection \<open>The two conversions\<close>

text \<open>An entry that gives a resolver by its address.\<close>

definition by_address :: "bool \<Rightarrow> findnsEntry \<Rightarrow> bool" where
  "by_address doh e \<longleftrightarrow> \<not> (doh \<and> e_URL e \<noteq> '''')"

text \<open>C35: the conversion inside \<open>Scan\<close> and \<open>ParseFindNSOutput\<close>, written twice, give the same resolvers exactly when no
  entry that is used by its address carries a colon: for an IPv6 address or an entry with a port they differ.\<close>

theorem conversions_agree_iff:
  "scan_entries doh es = output_entries doh es \<longleftrightarrow> (\<forall>e \<in> set es. by_address doh e \<longrightarrow> CHR '':'' \<notin> set (e_IP e))"
proof (induction es)
  case (Cons e es)
  have "e_IP e @ '':53'' \<noteq> e_IP e" by simp
  with Cons show ?case by (auto simp: by_address_def)
qed simp

theorem conversions_agree_iff_witness:
  "scan_entries False [\<lparr>e_IP = ''1.1.1.1:5353'', e_URL = ''''\<rparr>] \<noteq> output_entries False [\<lparr>e_IP = ''1.1.1.1:5353'', e_URL = ''''\<rparr>]"
  using conversions_agree_iff [of False "[\<lparr>e_IP = ''1.1.1.1:5353'', e_URL = ''''\<rparr>]"]
  by (simp add: by_address_def del: scan_entries.simps output_entries.simps)

end
