(* ===== verification/AutoScan.thy ===== *)
theory AutoScan
  imports Scanner FindNS
begin

text \<open>
  \<open>autoscan.go\<close>: the background scanner that replaces the pool's resolvers. Its state is the
  record \<open>autoscan\<close>; the channels \<open>rescanCh\<close> (one slot) and \<open>readyCh\<close> (closed once) are flags.
\<close>

subsection \<open>State\<close>

record autoscan =
  a_pool :: pool
  a_all :: "Resolver list"
  a_scanDomain :: string
  a_doh :: bool
  a_pubkey :: bytes
  a_interval :: int
  a_topN :: int
  a_maxSteps :: int
  a_workers :: int
  a_rescan :: bool
  a_ready :: bool
  a_findns :: "FindNSScanner option"
  a_resolverFile :: string

definition NewAutoScanner :: "pool \<Rightarrow> Resolver list \<Rightarrow> string \<Rightarrow> bool \<Rightarrow> bytes \<Rightarrow> int \<Rightarrow> int \<Rightarrow> int \<Rightarrow> int \<Rightarrow> autoscan" where
  "NewAutoScanner pool allResolvers scanDomain doh pubkey interval topN maxSteps workers =
     \<lparr>a_pool = pool, a_all = allResolvers, a_scanDomain = scanDomain, a_doh = doh, a_pubkey = pubkey, a_interval = interval,
      a_topN = topN, a_maxSteps = maxSteps, a_workers = workers, a_rescan = False, a_ready = False,
      a_findns = None, a_resolverFile = ''''\<rparr>"

definition SetFindNS :: "FindNSScanner \<Rightarrow> string \<Rightarrow> autoscan \<Rightarrow> autoscan" where
  "SetFindNS scanner resolverFile as = as\<lparr>a_findns := Some scanner, a_resolverFile := resolverFile\<rparr>"

definition TriggerRescan :: "autoscan \<Rightarrow> autoscan" where
  "TriggerRescan as = (if a_rescan as then as else as\<lparr>a_rescan := True\<rparr>)"

text \<open>\<open>readyOnce.Do(func() { close(as.readyCh) })\<close>\<close>

definition signalReady :: "autoscan \<Rightarrow> autoscan" where
  "signalReady as = as\<lparr>a_ready := True\<rparr>"

text \<open>\<open>WaitReady\<close> returns once the channel is closed.\<close>

definition WaitReady :: "autoscan \<Rightarrow> unit outcome" where
  "WaitReady as = (if a_ready as then Done () else Blocked)"

definition Stop_scanner :: "bool \<Rightarrow> bool outcome" where
  "Stop_scanner stopped = (if stopped then Panic else Done True)"

definition update_pool :: "Resolver list \<Rightarrow> autoscan \<Rightarrow> unit outcome \<times> autoscan" where
  "update_pool rs as =
     (case UpdateResolvers rs (a_pool as) of
        (Done _, p) \<Rightarrow> (Done (), as\<lparr>a_pool := p\<rparr>)
      | (Blocked, p) \<Rightarrow> (Blocked, as\<lparr>a_pool := p\<rparr>)
      | (Panic, p) \<Rightarrow> (Panic, as\<lparr>a_pool := p\<rparr>))"

subsection \<open>Choosing the resolvers\<close>

definition verify_before :: "VerifyResult \<Rightarrow> VerifyResult \<Rightarrow> bool" where
  "verify_before a b \<longleftrightarrow>
     (if vr_Verified a \<and> \<not> vr_Verified b then True
      else vr_Verified a = vr_Verified b \<and> vr_LatencyMs a < vr_LatencyMs b)"

definition sortVerifyResults :: "VerifyResult list \<Rightarrow> VerifyResult list" where
  "sortVerifyResults results = swap_sort verify_before results"

fun select_upto :: "(VerifyResult \<Rightarrow> bool) \<Rightarrow> int \<Rightarrow> VerifyResult list \<Rightarrow> Resolver list \<Rightarrow> Resolver list" where
  "select_upto P topN [] qualified = qualified"
| "select_upto P topN (r # results) qualified =
     (if P r then
        (let qualified = qualified @ [vr_Resolver r] in
         if 0 < topN \<and> topN \<le> int (length qualified) then qualified
         else select_upto P topN results qualified)
      else select_upto P topN results qualified)"

definition qualified_of :: "int \<Rightarrow> VerifyResult list \<Rightarrow> Resolver list" where
  "qualified_of topN results =
     (let sorted = sortVerifyResults results;
          qualified = select_upto vr_Verified topN sorted []
      in if length qualified = 0 then select_upto (\<lambda>r. vr_Status r = ''WORKING'') topN sorted []
         else qualified)"

definition processResults :: "VerifyResult list \<Rightarrow> autoscan \<Rightarrow> unit outcome \<times> autoscan" where
  "processResults results as =
     (let qualified = qualified_of (a_topN as) results
      in if length qualified = 0 then (Done (), as) else update_pool qualified as)"

text \<open>What a scan that returned from its update reports: the counts, and the verified ones among the first results.\<close>

definition scan_counts :: "VerifyResult list \<Rightarrow> nat \<times> nat \<times> nat \<times> nat" where
  "scan_counts results =
     fold (\<lambda>r (working, verified, timeouts, errors).
        if vr_Status r = ''WORKING'' then (Suc working, if vr_Verified r then Suc verified else verified, timeouts, errors)
        else if vr_Status r = ''TIMEOUT'' then (working, verified, Suc timeouts, errors)
        else (working, verified, timeouts, Suc errors)) results (0, 0, 0, 0)"

definition top_list :: "VerifyResult list \<Rightarrow> Resolver list \<Rightarrow> string" where
  "top_list results qualified =
     (let limit = (if 10 < length qualified then 10 else length qualified)
      in Join (map (\<lambda>r. Resolver_String (vr_Resolver r) @ ''('' @ Itoa (vr_LatencyMs r) @ ''ms)'')
                 (filter vr_Verified (take limit results))) '', '')"

lemma scan_counts_fold:
  "fold (\<lambda>r (working, verified, timeouts, errors).
        if vr_Status r = ''WORKING'' then (Suc working, if vr_Verified r then Suc verified else verified, timeouts, errors)
        else if vr_Status r = ''TIMEOUT'' then (working, verified, Suc timeouts, errors)
        else (working, verified, timeouts, Suc errors)) results (w, v, t, e) =
   (w + length (filter (\<lambda>r. vr_Status r = ''WORKING'') results),
    v + length (filter (\<lambda>r. vr_Status r = ''WORKING'' \<and> vr_Verified r) results),
    t + length (filter (\<lambda>r. vr_Status r = ''TIMEOUT'') results),
    e + length (filter (\<lambda>r. vr_Status r \<noteq> ''WORKING'' \<and> vr_Status r \<noteq> ''TIMEOUT'') results))"
  by (induction results arbitrary: w v t e) auto

lemma scan_counts_total: "scan_counts results = (w, v, t, e) \<Longrightarrow> w + t + e = length results \<and> v \<le> w"
proof -
  assume s: "scan_counts results = (w, v, t, e)"
  have "length (filter (\<lambda>r. vr_Status r = ''WORKING'') results) +
      length (filter (\<lambda>r. vr_Status r = ''TIMEOUT'') results) +
      length (filter (\<lambda>r. vr_Status r \<noteq> ''WORKING'' \<and> vr_Status r \<noteq> ''TIMEOUT'') results) = length results"
    and "length (filter (\<lambda>r. vr_Status r = ''WORKING'' \<and> vr_Verified r) results) \<le>
      length (filter (\<lambda>r. vr_Status r = ''WORKING'') results)"
    by (induction results) auto
  then show ?thesis using s by (auto simp: scan_counts_def scan_counts_fold)
qed

text \<open>\<open>rand.Shuffle\<close>: a swap with a random position below, for every position from the last on.\<close>

fun shuffle_loop :: "(nat \<Rightarrow> nat) \<Rightarrow> nat \<Rightarrow> 'a list \<Rightarrow> 'a list" where
  "shuffle_loop draws 0 xs = xs"
| "shuffle_loop draws (Suc i) xs =
     (let j = draws i mod (Suc i + 1)
      in shuffle_loop draws i (xs[Suc i := xs ! j, j := xs ! Suc i]))"

definition shuffledResolvers :: "(nat \<Rightarrow> nat) \<Rightarrow> autoscan \<Rightarrow> Resolver list" where
  "shuffledResolvers draws as =
     (let shuffled = shuffle_loop draws (length (a_all as) - 1) (a_all as)
      in if 0 < a_maxSteps as \<and> a_maxSteps as < int (length shuffled)
         then take (nat (a_maxSteps as)) shuffled else shuffled)"

subsection \<open>One scan\<close>

text \<open>What a scan meets: random numbers, the networks of the goroutines, the order they finish in.\<close>

record scan_sys =
  s_draws :: "nat \<Rightarrow> nat"
  s_unpack :: unpacker
  s_envs :: "nat \<Rightarrow> probe_env"
  s_order :: "nat list"
  s_lookPath :: "string \<Rightarrow> bool"
  s_findns :: findns_sys
  s_findns_deep :: findns_sys

definition initialScanBuiltin :: "scan_sys \<Rightarrow> autoscan \<Rightarrow> unit outcome \<times> autoscan" where
  "initialScanBuiltin sys as =
     and_then (verifyResolversWithEarlyReady (s_unpack sys) (s_envs sys) (s_order sys)
                 (shuffledResolvers (s_draws sys) as) (a_scanDomain as) (a_doh as) (a_workers as)
                 (a_topN as) (a_pubkey as)
                 (\<lambda>ready as. and_then (update_pool ready as) (\<lambda>_ as. (Done (), signalReady as))) as)
       (\<lambda>results as. and_then (processResults results as) (\<lambda>_ as. (Done (), signalReady as)))"

definition scanAndUpdateBuiltin :: "scan_sys \<Rightarrow> autoscan \<Rightarrow> unit outcome \<times> autoscan" where
  "scanAndUpdateBuiltin sys as =
     (case verifyResolversQuiet (s_unpack sys) (s_envs sys) (s_order sys)
             (shuffledResolvers (s_draws sys) as) (a_scanDomain as) (a_doh as) (a_workers as) (a_pubkey as) of
        Done results \<Rightarrow> processResults results as
      | Blocked \<Rightarrow> (Blocked, as)
      | Panic \<Rightarrow> (Panic, as))"

definition initialScan :: "scan_sys \<Rightarrow> autoscan \<Rightarrow> unit outcome \<times> autoscan" where
  "initialScan sys as =
     (case a_findns as of None \<Rightarrow> initialScanBuiltin sys as
      | Some f \<Rightarrow>
          if \<not> IsAvailable (s_lookPath sys) f then initialScanBuiltin sys as
          else case Scan (s_findns sys) f (a_resolverFile as) of
            Inl _ \<Rightarrow> initialScanBuiltin sys as
          | Inr resolvers \<Rightarrow>
              if 0 < length resolvers
              then and_then (update_pool resolvers as) (\<lambda>_ as. (Done (), signalReady as))
              else case Scan (s_findns_deep sys) f '''' of
                Inl _ \<Rightarrow> initialScanBuiltin sys as
              | Inr deepResolvers \<Rightarrow>
                  if 0 < length deepResolvers
                  then and_then (update_pool deepResolvers as) (\<lambda>_ as. (Done (), signalReady as))
                  else initialScanBuiltin sys as)"

definition scanAndUpdate :: "scan_sys \<Rightarrow> autoscan \<Rightarrow> unit outcome \<times> autoscan" where
  "scanAndUpdate sys as =
     (case a_findns as of None \<Rightarrow> scanAndUpdateBuiltin sys as
      | Some f \<Rightarrow>
          if \<not> IsAvailable (s_lookPath sys) f then scanAndUpdateBuiltin sys as
          else case Scan (s_findns sys) f (a_resolverFile as) of
            Inl _ \<Rightarrow> scanAndUpdateBuiltin sys as
          | Inr resolvers \<Rightarrow>
              if 0 < length resolvers then update_pool resolvers as else scanAndUpdateBuiltin sys as)"

subsection \<open>The loop\<close>

definition maintain :: "autoscan \<Rightarrow> unit outcome \<times> autoscan" where
  "maintain as =
     (case HealthyCount (a_pool as) of
        (Done healthy, p) \<Rightarrow>
          (let as = as\<lparr>a_pool := p\<rparr> in
           (Done (), if 0 < a_topN as \<and> int healthy < go_quot (a_topN as) 2 \<and> healthy < length (a_all as)
                     then TriggerRescan as else as))
      | (Blocked, p) \<Rightarrow> (Blocked, as\<lparr>a_pool := p\<rparr>)
      | (Panic, p) \<Rightarrow> (Panic, as\<lparr>a_pool := p\<rparr>))"

datatype wakeup = PeriodicTick | RescanRequest | MaintainTick | StopClosed

text \<open>
  The \<open>select\<close> of the loop takes one of the channels that are ready. \<open>None\<close> ends the loop;
  \<open>RescanRequest\<close> can only be taken when one is pending.
\<close>

definition wake :: "scan_sys \<Rightarrow> wakeup \<Rightarrow> autoscan \<Rightarrow> (unit outcome \<times> autoscan) option" where
  "wake sys w as =
     (case w of
        PeriodicTick \<Rightarrow> Some (scanAndUpdate sys as)
      | RescanRequest \<Rightarrow> Some (if a_rescan as then scanAndUpdate sys (as\<lparr>a_rescan := False\<rparr>) else (Done (), as))
      | MaintainTick \<Rightarrow> Some (maintain as)
      | StopClosed \<Rightarrow> None)"

fun as_loop :: "(scan_sys \<times> wakeup) list \<Rightarrow> autoscan \<Rightarrow> unit outcome \<times> autoscan" where
  "as_loop [] as = (Done (), as)"
| "as_loop ((sys, w) # ws) as =
     (case wake sys w as of None \<Rightarrow> (Done (), as)
      | Some m \<Rightarrow> and_then m (\<lambda>_ as. as_loop ws as))"

text \<open>\<open>time.NewTicker\<close> panics for an interval that is not positive.\<close>

definition as_ticked :: "(scan_sys \<times> wakeup) list \<Rightarrow> autoscan \<Rightarrow> unit outcome \<times> autoscan" where
  "as_ticked ws as = (if a_interval as \<le> 0 then (Panic, as) else as_loop ws as)"

definition as_run :: "scan_sys \<Rightarrow> (scan_sys \<times> wakeup) list \<Rightarrow> autoscan \<Rightarrow> unit outcome \<times> autoscan" where
  "as_run sys ws as = and_then (initialScan sys as) (\<lambda>_ as. as_ticked ws as)"

end
