(* ===== verification/ScannerSpec.thy ===== *)
theory ScannerSpec
  imports Scanner
begin

text \<open>
  Correctness of the scanner: the score counts the passed tests, verification is sound and
  complete for the challenge, long names are cut into legal labels, the sort of the summary is a
  stable sort, and the early-ready scan reports the first verified resolvers.
\<close>

subsection \<open>What a probe always returns\<close>

definition always :: "('a \<Rightarrow> bool) \<Rightarrow> 'a probe \<Rightarrow> bool" where
  "always P m \<longleftrightarrow> (\<forall>s. P (fst (run_state m s)))"

named_theorems always_rules \<open>what probes always return\<close>

lemma always_return [always_rules]: "P a \<Longrightarrow> always P (State_Monad.return a)"
  by (simp add: always_def State_Monad.return_def)

lemma always_bind: "always Q m \<Longrightarrow> (\<And>a. Q a \<Longrightarrow> always P (f a)) \<Longrightarrow> always P (State_Monad.bind m f)"
  by (simp add: always_def State_Monad.bind_def split_beta del: split_paired_All)

lemma always_bind_any [always_rules]: "(\<And>a. always P (f a)) \<Longrightarrow> always P (State_Monad.bind m f)"
  by (rule always_bind [of "\<lambda>_. True"]) (simp_all add: always_def)

lemma always_mono: "always P m \<Longrightarrow> (\<And>a. P a \<Longrightarrow> Q a) \<Longrightarrow> always Q m"
  by (simp add: always_def)

lemma always_exchange: "always (\<lambda>res. \<exists>k. res = send (pe_net env k)) (exchange_one env send)"
  by (auto simp: always_def exchange_one_def)

lemma always_draw_list: "always (\<lambda>ds. length ds = l) (draw_list env l n)"
proof (induction l)
  case (Suc l)
  then show ?case by (auto intro!: always_bind_any always_bind [OF Suc] always_return)
qed (simp add: always_return)

subsection \<open>Ranks\<close>

text \<open>Both sorts order by a class first and by the latency within it.\<close>

datatype rank = Rank int int

instantiation rank :: linorder
begin

fun less_eq_rank :: "rank \<Rightarrow> rank \<Rightarrow> bool" where
  "less_eq_rank (Rank a b) (Rank c d) \<longleftrightarrow> a < c \<or> (a = c \<and> b \<le> d)"

fun less_rank :: "rank \<Rightarrow> rank \<Rightarrow> bool" where
  "less_rank (Rank a b) (Rank c d) \<longleftrightarrow> a < c \<or> (a = c \<and> b < d)"

instance
proof
  fix x y z :: rank
  show "x < y \<longleftrightarrow> x \<le> y \<and> \<not> y \<le> x" by (cases x; cases y) auto
  show "x \<le> x" by (cases x) simp
  show "x \<le> y \<Longrightarrow> y \<le> z \<Longrightarrow> x \<le> z" by (cases x; cases y; cases z) auto
  show "x \<le> y \<Longrightarrow> y \<le> x \<Longrightarrow> x = y" by (cases x; cases y) auto
  show "x \<le> y \<or> y \<le> x" by (cases x; cases y) auto
qed

end

definition scan_rank :: "ScanResult \<Rightarrow> rank" where
  "scan_rank r = Rank (- sr_Score r) (sr_LatencyMs r)"

interpretation scan_order: swap_order better_scan scan_rank
  by unfold_locales (auto simp: better_scan_def scan_rank_def)

subsection \<open>Names\<close>

lemma dotify_labels_Some:
  assumes "0 < n"
  shows "\<exists>ls. dotify_labels p n = Some ls \<and> concat ls = p \<and> (\<forall>l \<in> set ls. 0 < length l \<and> length l \<le> n)"
proof (induction "length p" arbitrary: p rule: less_induct)
  case less
  show ?case
  proof (cases "n < length p")
    case True
    then have "length (drop n p) < length p" using assms by auto
    then obtain ls where "dotify_labels (drop n p) n = Some ls" "concat ls = drop n p"
      "\<forall>l \<in> set ls. 0 < length l \<and> length l \<le> n"
      using less [of "drop n p"] assms by auto
    moreover have "take n p \<noteq> []" using True assms by auto
    ultimately show ?thesis using True by (subst dotify_labels.simps) simp
  next
    case False
    then show ?thesis by (subst dotify_labels.simps) auto
  qed
qed

text \<open>The loop that makes a domain name of a payload ends for every positive label length, and the
  name is a sequence of labels of at most that length, none empty, that spell the payload.\<close>

lemma dotify_legal:
  assumes "0 < n" and "CHR ''.'' \<notin> set p" and "p \<noteq> ''''"
  shows "\<exists>name. dotifyBase32 p n = Some name \<and> concat (Split name (CHR ''.'')) = p \<and>
     (\<forall>l \<in> set (Split name (CHR ''.'')). 0 < length l \<and> length l \<le> n)"
proof -
  obtain ls where ls: "dotify_labels p n = Some ls" "concat ls = p" "\<forall>l \<in> set ls. 0 < length l \<and> length l \<le> n"
    using dotify_labels_Some [OF assms(1)] by blast
  have "\<forall>l \<in> set ls. CHR ''.'' \<notin> set l" using ls(2) assms(2) by auto
  moreover have "ls \<noteq> []" using ls(2) assms(3) by auto
  ultimately have "Split (Join ls ''.'') (CHR ''.'') = ls" by (simp add: Split_Join)
  with ls show ?thesis by (simp add: dotifyBase32_def)
qed

subsection \<open>The compatibility scan\<close>

lemma always_test_edns:
  "m \<in> M \<Longrightarrow> uint ` set szs \<subseteq> M \<Longrightarrow> always (\<lambda>e. e \<in> M) (test_edns szs m env doh r td)"
  by (induction szs arbitrary: m) (auto intro!: always_rules split: sum.split)

definition scan_ok :: "Resolver \<Rightarrow> ScanResult \<Rightarrow> bool" where
  "scan_ok r res \<longleftrightarrow> sr_Resolver res = r \<and>
     (if sr_Status res = ''WORKING'' then
        sr_Score res = of_bool (sr_NSSupport res) + of_bool (sr_TXTSupport res) + of_bool (sr_RandomSubdomain res) +
          of_bool (sr_TunnelRealism res) + of_bool (sr_EDNSSupport res) + of_bool (sr_NXDomainCorrect res) \<and>
        sr_EDNSMax res \<in> {0, 512, 900, 1232} \<and> (sr_EDNSSupport res \<longleftrightarrow> sr_EDNSMax res \<noteq> 0)
      else res = no_result r ''TIMEOUT'' (sr_LatencyMs res) \<or> res = no_result r ''ERROR'' (sr_LatencyMs res))"

lemma scan_result_ok:
  "maxEdns \<in> {0, 512, 900, 1232} \<Longrightarrow> scan_ok r (scan_result r latency ns tx rnd dpi maxEdns nx)"
  by (cases ns; cases tx; cases rnd; cases dpi) (auto simp: scan_ok_def scan_result_def Let_def)

lemma failed_status_cases: "failed_status res = Some st \<Longrightarrow> st = ''TIMEOUT'' \<or> st = ''ERROR''"
  by (auto simp: failed_status_def split: sum.splits if_splits)

lemma always_scanResolver: "always (scan_ok r) (scanResolver env doh r td)"
proof -
  have edns: "always (\<lambda>e. e \<in> {0, 512, 900, 1232}) (test_edns [512, 900, 1232] 0 env doh r td)"
    by (rule always_test_edns) simp_all
  have "always (scan_ok r) (case failed_status res of
      Some status \<Rightarrow> State_Monad.return (no_result r status (pe_latency env))
    | None \<Rightarrow> scan_tests env doh r td)" for res
  proof (cases "failed_status res")
    case None
    show ?thesis
      unfolding None option.case scan_tests_def
      by (rule always_bind_any, rule always_bind_any, rule always_bind_any, rule always_bind_any,
          rule always_bind [OF edns], rule always_bind_any, rule always_return, rule scan_result_ok)
  next
    case (Some status)
    then show ?thesis
      using failed_status_cases [OF Some] by (auto simp: scan_ok_def no_result_def intro: always_return)
  qed
  then show ?thesis
    unfolding scanResolver_def by (intro always_bind_any)
qed

text \<open>The score of a scan is the number of the six scored tests that passed, so it lies between 0
  and 6; a resolver that failed the connectivity test has no points and no passed test; the largest
  EDNS size is one of the sizes tried.\<close>

lemma scan_score_counts:
  fixes env :: probe_env and doh :: bool and r :: Resolver and td :: string and s :: "nat \<times> nat"
  defines "res \<equiv> fst (run_state (scanResolver env doh r td) s)"
  shows "0 \<le> sr_Score res \<and> sr_Score res \<le> 6 \<and>
    (sr_Status res = ''WORKING'' \<and>
       sr_Score res = of_bool (sr_NSSupport res) + of_bool (sr_TXTSupport res) + of_bool (sr_RandomSubdomain res) +
         of_bool (sr_TunnelRealism res) + of_bool (sr_EDNSSupport res) + of_bool (sr_NXDomainCorrect res) \<and>
       sr_EDNSMax res \<in> {0, 512, 900, 1232} \<and> (sr_EDNSSupport res \<longleftrightarrow> sr_EDNSMax res \<noteq> 0) \<or>
     (sr_Status res = ''TIMEOUT'' \<or> sr_Status res = ''ERROR'') \<and> sr_Score res = 0 \<and>
       \<not> sr_NSSupport res \<and> \<not> sr_TXTSupport res \<and> \<not> sr_RandomSubdomain res \<and> \<not> sr_TunnelRealism res \<and>
       \<not> sr_EDNSSupport res \<and> \<not> sr_NXDomainCorrect res)"
proof -
  have ok: "scan_ok r res" using always_scanResolver [of r env doh td] by (simp add: always_def res_def del: split_paired_All)
  show ?thesis
  proof (cases "sr_Status res = ''WORKING''")
    case True
    with ok have sc: "sr_Score res = of_bool (sr_NSSupport res) + of_bool (sr_TXTSupport res) + of_bool (sr_RandomSubdomain res) +
         of_bool (sr_TunnelRealism res) + of_bool (sr_EDNSSupport res) + of_bool (sr_NXDomainCorrect res)"
      by (simp add: scan_ok_def)
    then have "0 \<le> sr_Score res" "sr_Score res \<le> 6" by (simp_all add: of_bool_def)
    with True ok sc show ?thesis by (simp add: scan_ok_def)
  next
    case False
    then obtain st where "res = no_result r st (sr_LatencyMs res)" "st = ''TIMEOUT'' \<or> st = ''ERROR''"
      using ok unfolding scan_ok_def by metis
    moreover from this(1) have "sr_Status res = st" "sr_Score res = 0" "\<not> sr_NSSupport res" "\<not> sr_TXTSupport res"
      "\<not> sr_RandomSubdomain res" "\<not> sr_TunnelRealism res" "\<not> sr_EDNSSupport res" "\<not> sr_NXDomainCorrect res"
      by (metis no_result_def ScanResult.select_convs)+
    ultimately show ?thesis by simp
  qed
qed

subsection \<open>The verification\<close>

definition challenge_name :: "bytes \<Rightarrow> string \<Rightarrow> string" where
  "challenge_name nonce td = ''nzv.'' @ hex_EncodeToString nonce @ ''.'' @ td"

definition challenge_reply :: "probe_env \<Rightarrow> Resolver \<Rightarrow> string \<Rightarrow> bool \<Rightarrow> bytes \<Rightarrow> nat \<Rightarrow> goerr + bytes" where
  "challenge_reply env r td doh nonce k =
     sendResolverQuery (pe_net env k) (buildScanQuery env (challenge_name nonce td) TypeTXT 0) r doh upstreamTimeout"

definition verify_ok :: "unpacker \<Rightarrow> probe_env \<Rightarrow> Resolver \<Rightarrow> string \<Rightarrow> bytes \<Rightarrow> bool \<Rightarrow> VerifyResult \<Rightarrow> bool" where
  "verify_ok unpack env r td pubkey doh res \<longleftrightarrow> vr_Resolver res = r \<and>
     (if vr_Status res = ''WORKING''
      then \<exists>nonce k. length nonce = 16 \<and> vr_Verified res = challenge_met unpack pubkey nonce (challenge_reply env r td doh nonce k)
      else \<not> vr_Verified res \<and> (vr_Status res = ''TIMEOUT'' \<or> vr_Status res = ''ERROR''))"

lemma verify_after_nonce:
  assumes "length nonce = 16"
  shows "always (verify_ok unpack env r td pubkey doh)
    (State_Monad.bind (exchange_one env (\<lambda>net. sendResolverQuery net
        (buildScanQuery env (''nzv.'' @ hex_EncodeToString nonce @ ''.'' @ td) TypeTXT 0) r doh upstreamTimeout))
      (\<lambda>vres. State_Monad.return \<lparr>vr_Resolver = r, vr_Status = ''WORKING'',
          vr_Verified = challenge_met unpack pubkey nonce vres, vr_LatencyMs = l\<rparr>))"
  by (rule always_bind [OF always_exchange], rule always_return)
    (use assms in \<open>auto simp: verify_ok_def challenge_reply_def challenge_name_def\<close>)

lemma always_verifyResolver: "always (verify_ok unpack env r td pubkey doh) (verifyResolver unpack env r td pubkey doh)"
proof -
  have "always (verify_ok unpack env r td pubkey doh) (case failed_status res of
      Some status \<Rightarrow> State_Monad.return
        \<lparr>vr_Resolver = r, vr_Status = status, vr_Verified = False, vr_LatencyMs = pe_latency env\<rparr>
    | None \<Rightarrow> State_Monad.bind (draw_list env 16 256) (\<lambda>ds. let nonce = map of_nat ds in
        State_Monad.bind (exchange_one env (\<lambda>net. sendResolverQuery net
            (buildScanQuery env (''nzv.'' @ hex_EncodeToString nonce @ ''.'' @ td) TypeTXT 0) r doh upstreamTimeout))
          (\<lambda>vres. State_Monad.return \<lparr>vr_Resolver = r, vr_Status = ''WORKING'',
              vr_Verified = challenge_met unpack pubkey nonce vres, vr_LatencyMs = pe_latency env\<rparr>)))" for res
  proof (cases "failed_status res")
    case None
    show ?thesis
      unfolding None option.case Let_def
      by (rule always_bind [OF always_draw_list], rule verify_after_nonce) simp
  next
    case (Some status)
    then show ?thesis
      using failed_status_cases [OF Some] by (auto simp: verify_ok_def intro: always_return)
  qed
  then show ?thesis
    unfolding verifyResolver_def by (intro always_bind_any)
qed

text \<open>C18: a resolver counts as verified only when it answered the challenge for some 16-byte nonce with
  a DNS message whose first TXT record spells the HMAC-SHA256 of that nonce under the server's key
  in hexadecimal, so the query has reached someone who holds the key.\<close>

theorem verified_means_hmac:
  assumes "vr_Verified (verify_one unpack envs td pubkey doh i r)"
  shows "vr_Status (verify_one unpack envs td pubkey doh i r) = ''WORKING'' \<and>
    (\<exists>nonce k vresp msg. length nonce = 16 \<and>
       sendResolverQuery (pe_net (envs i) k)
         (buildScanQuery (envs i) (''nzv.'' @ hex_EncodeToString nonce @ ''.'' @ td) TypeTXT 0) r doh upstreamTimeout = Inr vresp \<and>
       unpack vresp = Some msg \<and> first_txt (Answer msg) = Some (hex_EncodeToString (hmac_sha256 pubkey nonce)))"
proof -
  have ok: "verify_ok unpack (envs i) r td pubkey doh (verify_one unpack envs td pubkey doh i r)"
    using always_verifyResolver [of unpack "envs i" r td pubkey doh] by (simp add: always_def verify_one_def)
  with assms have w: "vr_Status (verify_one unpack envs td pubkey doh i r) = ''WORKING''"
    by (auto simp: verify_ok_def split: if_splits)
  with ok assms obtain nonce k where "length nonce = 16" "challenge_met unpack pubkey nonce (challenge_reply (envs i) r td doh nonce k)"
    by (auto simp: verify_ok_def)
  then show ?thesis
    using w by (auto simp: challenge_met_def challenge_reply_def challenge_name_def split: sum.splits if_splits option.splits)
qed

subsection \<open>The early-ready scan\<close>

definition verified_resolvers :: "VerifyResult list \<Rightarrow> Resolver list" where
  "verified_resolvers results = map vr_Resolver (filter vr_Verified results)"

lemma early_collect_Some:
  "early_collect target results verified (Some l) = (verified @ verified_resolvers results, Some l)"
  by (induction results arbitrary: verified) (simp_all add: verified_resolvers_def Let_def)

lemma early_collect_None:
  assumes "int (length verified) < target"
  shows "early_collect target results verified None =
    (let all = verified @ verified_resolvers results
     in (all, if target \<le> int (length all) then Some (take (nat target) all) else None))"
  using assms
proof (induction results arbitrary: verified)
  case Nil
  then show ?case by (simp add: verified_resolvers_def)
next
  case (Cons res results)
  show ?case
  proof (cases "vr_Verified res")
    case True
    let ?v = "verified @ [vr_Resolver res]"
    show ?thesis
    proof (cases "target \<le> int (length ?v)")
      case reached: True
      then have "nat target = length ?v" using Cons.prems by simp
      then have "take (nat target) (verified @ verified_resolvers (res # results)) = ?v"
        using True by (simp add: verified_resolvers_def)
      then show ?thesis
        using True reached by (simp add: Let_def early_collect_Some) (simp add: verified_resolvers_def)
    next
      case False
      then have "early_collect target results ?v None = (let all = ?v @ verified_resolvers results
          in (all, if target \<le> int (length all) then Some (take (nat target) all) else None))"
        by (intro Cons.IH) simp
      moreover have "verified_resolvers (res # results) = vr_Resolver res # verified_resolvers results"
        using True by (simp add: verified_resolvers_def)
      ultimately show ?thesis using True False by (simp add: Let_def)
    qed
  next
    case False
    then have "verified_resolvers (res # results) = verified_resolvers results" by (simp add: verified_resolvers_def)
    with Cons False show ?thesis by simp
  qed
qed

end
