(* ===== verification/AutoScanSpec.thy ===== *)
theory AutoScanSpec
  imports AutoScan ScannerSpec PoolHealth
begin

text \<open>
  Correctness of the auto-scanner: which resolvers a scan installs, when the initial scan signals
  that the services may start, the maintenance check, and the shuffle.
\<close>

subsection \<open>Selection\<close>

definition verify_rank :: "VerifyResult \<Rightarrow> rank" where
  "verify_rank r = Rank (if vr_Verified r then 0 else 1) (vr_LatencyMs r)"

interpretation verify_order: swap_order verify_before verify_rank
  by unfold_locales (auto simp: verify_before_def verify_rank_def)

definition cap :: "int \<Rightarrow> 'a list \<Rightarrow> 'a list" where
  "cap n xs = (if 0 < n then take (nat n) xs else xs)"

lemma select_upto_acc:
  assumes "0 < topN \<Longrightarrow> int (length acc) < topN"
  shows "select_upto P topN results acc = cap topN (acc @ map vr_Resolver (filter P results))"
  using assms
proof (induction results arbitrary: acc)
  case Nil
  then show ?case by (auto simp: cap_def)
next
  case (Cons r results)
  show ?case
  proof (cases "P r \<and> 0 < topN \<and> topN \<le> int (length (acc @ [vr_Resolver r]))")
    case True
    then have "topN = int (length (acc @ [vr_Resolver r]))" using Cons.prems by auto
    then have "nat topN = length (acc @ [vr_Resolver r])" by simp
    with True show ?thesis by (simp add: cap_def)
  next
    case False
    then have "select_upto P topN results (if P r then acc @ [vr_Resolver r] else acc) =
        cap topN ((if P r then acc @ [vr_Resolver r] else acc) @ map vr_Resolver (filter P results))"
      using Cons.prems by (intro Cons.IH) auto
    with False show ?thesis by (auto simp: Let_def split: if_splits)
  qed
qed

lemma select_upto_filter: "select_upto P topN results [] = cap topN (map vr_Resolver (filter P results))"
  by (subst select_upto_acc) simp_all

lemma cap_empty: "cap n xs = [] \<longleftrightarrow> xs = []"
  by (simp add: cap_def)

lemma sort_key_class:
  assumes "\<forall>r \<in> set xs. verify_rank r = Rank c (vr_LatencyMs r)"
  shows "sort_key verify_rank xs = sort_key vr_LatencyMs xs"
proof (rule properties_for_sort_key)
  let ?ys = "sort_key vr_LatencyMs xs"
  show "mset ?ys = mset xs" by simp
  show "filter (\<lambda>x. verify_rank k = verify_rank x) ?ys = filter (\<lambda>x. verify_rank k = verify_rank x) xs" if "k \<in> set ?ys" for k
  proof -
    have "filter (\<lambda>x. verify_rank k = verify_rank x) zs = filter (\<lambda>x. vr_LatencyMs k = vr_LatencyMs x) zs"
      if "set zs = set xs" for zs
      using that assms \<open>k \<in> set ?ys\<close> by (intro filter_cong) auto
    then show ?thesis using sort_key_stable [of "\<lambda>x. vr_LatencyMs x" "vr_LatencyMs k" xs] by (simp add: eq_commute)
  qed
  have "sorted (map (Rank c) (map vr_LatencyMs ?ys))"
    by (rule sorted_map_mono [where f = "Rank c"]) (simp_all add: monotone_on_def)
  also have "map (Rank c) (map vr_LatencyMs ?ys) = map verify_rank ?ys" using assms by simp
  finally show "sorted (map verify_rank ?ys)" .
qed

lemma qualified_of_eq:
  "qualified_of topN results =
     (if \<exists>r \<in> set results. vr_Verified r
      then cap topN (map vr_Resolver (sort_key vr_LatencyMs (filter vr_Verified results)))
      else cap topN (map vr_Resolver (sort_key vr_LatencyMs (filter (\<lambda>r. vr_Status r = ''WORKING'') results))))"
proof -
  have s: "filter P (sortVerifyResults results) = sort_key verify_rank (filter P results)" for P
    by (simp add: sortVerifyResults_def verify_order.swap_sort_sorts filter_sort)
  show ?thesis
  proof (cases "\<exists>r \<in> set results. vr_Verified r")
    case True
    have "sort_key verify_rank (filter vr_Verified results) = sort_key vr_LatencyMs (filter vr_Verified results)"
      by (rule sort_key_class [of _ 0]) (simp add: verify_rank_def)
    moreover have "filter vr_Verified results \<noteq> []" using True by (simp add: filter_empty_conv)
    ultimately show ?thesis
      using True by (simp add: qualified_of_def Let_def select_upto_filter s cap_empty)
        (metis set_empty set_sort sort_key_simps(1))
  next
    case False
    then have "filter vr_Verified results = []" by (simp add: filter_empty_conv)
    moreover have "sort_key verify_rank (filter (\<lambda>r. vr_Status r = ''WORKING'') results) =
        sort_key vr_LatencyMs (filter (\<lambda>r. vr_Status r = ''WORKING'') results)"
      using False by (intro sort_key_class [of _ 1]) (simp add: verify_rank_def)
    ultimately show ?thesis
      using False by (simp add: qualified_of_def Let_def select_upto_filter s cap_empty)
  qed
qed

lemma sorted_split:
  assumes "sorted (map f ys)" and "\<And>x y. f x \<le> f y \<Longrightarrow> V y \<Longrightarrow> V x"
  shows "ys = filter V ys @ filter (\<lambda>x. \<not> V x) ys"
  using assms(1)
proof (induction ys)
  case (Cons y ys)
  show ?case
  proof (cases "V y")
    case False
    then have "\<forall>x \<in> set ys. \<not> V x" using Cons.prems assms(2) by auto
    with False show ?thesis by simp
  qed (use Cons in simp)
qed simp

text \<open>C34: the hand-written sort of the scan results is the stable sort by latency of the verified ones, followed by that
  of the others.\<close>

theorem sortVerifyResults_stable:
  "sortVerifyResults results =
     sort_key vr_LatencyMs (filter vr_Verified results) @ sort_key vr_LatencyMs (filter (\<lambda>r. \<not> vr_Verified r) results)"
proof -
  have eq: "sortVerifyResults results = sort_key verify_rank results"
    by (simp add: sortVerifyResults_def verify_order.swap_sort_sorts)
  have "sort_key verify_rank results = filter vr_Verified (sort_key verify_rank results) @
      filter (\<lambda>r. \<not> vr_Verified r) (sort_key verify_rank results)"
    by (rule sorted_split [where f = verify_rank]) (simp_all add: verify_rank_def split: if_splits)
  also have "\<dots> = sort_key verify_rank (filter vr_Verified results) @ sort_key verify_rank (filter (\<lambda>r. \<not> vr_Verified r) results)"
    by (simp only: filter_sort)
  also have "sort_key verify_rank (filter vr_Verified results) = sort_key vr_LatencyMs (filter vr_Verified results)"
    by (rule sort_key_class [of _ 0]) (simp add: verify_rank_def)
  also have "sort_key verify_rank (filter (\<lambda>r. \<not> vr_Verified r) results) =
      sort_key vr_LatencyMs (filter (\<lambda>r. \<not> vr_Verified r) results)"
    by (rule sort_key_class [of _ 1]) (simp add: verify_rank_def)
  finally show ?thesis using eq by simp
qed

subsection \<open>Installing\<close>

lemma update_pool_free:
  assumes "p_mu (a_pool as) = Readers 0"
  obtains p where "update_pool rs as = (Blocked, as\<lparr>a_pool := p\<rparr>)" and "p_mu p = Writer" and "p_resolvers p = rs"
proof
  show "update_pool rs as = (Blocked, as\<lparr>a_pool := snd (UpdateResolvers rs (a_pool as))\<rparr>)"
    using assms by (simp add: update_pool_def UpdateResolvers_free)
qed (use assms in \<open>simp_all add: UpdateResolvers_free\<close>)

text \<open>C19: a finished scan installs the verified resolvers, fastest first and the first found first among
  equally fast ones, at most \<open>topN\<close> of them; without any verified one it installs the working ones in
  the same way; and without any working one it leaves the pool alone.\<close>

theorem processResults_selects:
  fixes results :: "VerifyResult list"
  assumes "p_mu (a_pool as) = Readers 0"
  defines "good \<equiv> (if \<exists>r \<in> set results. vr_Verified r then filter vr_Verified results
                   else filter (\<lambda>r. vr_Status r = ''WORKING'') results)"
  shows "if good = [] then processResults results as = (Done (), as)
    else p_resolvers (a_pool (snd (processResults results as))) =
           (let best = map vr_Resolver (sort_key vr_LatencyMs good)
            in if 0 < a_topN as then take (nat (a_topN as)) best else best)"
proof -
  have q: "qualified_of (a_topN as) results = cap (a_topN as) (map vr_Resolver (sort_key vr_LatencyMs good))"
    by (simp add: qualified_of_eq good_def)
  obtain p where "update_pool (qualified_of (a_topN as) results) as = (Blocked, as\<lparr>a_pool := p\<rparr>)"
    "p_resolvers p = qualified_of (a_topN as) results"
    using update_pool_free [OF assms(1)] by blast
  moreover have "sort_key vr_LatencyMs good = [] \<longleftrightarrow> good = []"
    by (metis set_empty set_sort)
  ultimately show ?thesis
    using q by (auto simp: processResults_def Let_def cap_empty cap_def)
qed

subsection \<open>The initial scan\<close>

lemma signalReady_simps [simp]: "a_ready (signalReady as)" "a_pool (signalReady as) = a_pool as"
  by (simp_all add: signalReady_def)

text \<open>The two ways a scan ends: it finds nothing, or it is stuck in \<open>UpdateResolvers\<close>.\<close>

definition nothing_or_stuck :: "autoscan \<Rightarrow> bool \<Rightarrow> unit outcome \<times> autoscan \<Rightarrow> bool" where
  "nothing_or_stuck as nothing m \<longleftrightarrow>
     (if nothing then m = (Done (), signalReady as)
      else fst m = Blocked \<and> \<not> a_ready (snd m) \<and> p_mu (a_pool (snd m)) = Writer)"

lemma stuck_update:
  assumes "p_mu (a_pool as) = Readers 0" and "\<not> a_ready as"
  shows "nothing_or_stuck as False (and_then (update_pool rs as) f)"
proof -
  obtain p where "update_pool rs as = (Blocked, as\<lparr>a_pool := p\<rparr>)" "p_mu p = Writer"
    using update_pool_free [OF assms(1)] by metis
  with assms(2) show ?thesis by (simp add: nothing_or_stuck_def)
qed

lemma verified_working:
  "vr_Verified (verify_one unpack envs td pubkey doh i r) \<Longrightarrow> vr_Status (verify_one unpack envs td pubkey doh i r) = ''WORKING''"
  using always_verifyResolver [of unpack "envs i" r td pubkey doh]
  by (auto simp: always_def verify_one_def verify_ok_def split: if_splits simp del: split_paired_All)

definition builtin_results :: "scan_sys \<Rightarrow> autoscan \<Rightarrow> VerifyResult list" where
  "builtin_results sys as =
     map (\<lambda>i. verify_one (s_unpack sys) (s_envs sys) (a_scanDomain as) (a_pubkey as) (a_doh as) i
                (shuffledResolvers (s_draws sys) as ! i)) (s_order sys)"

lemma builtin_verified: "r \<in> set (builtin_results sys as) \<Longrightarrow> vr_Verified r \<Longrightarrow> vr_Status r = ''WORKING''"
  by (auto simp: builtin_results_def verified_working)

lemma initialScanBuiltin_cases:
  assumes "p_mu (a_pool as) = Readers 0" and "0 < a_workers as" and "\<not> a_ready as"
  shows "nothing_or_stuck as (\<forall>r \<in> set (builtin_results sys as). vr_Status r \<noteq> ''WORKING'') (initialScanBuiltin sys as)"
proof -
  let ?R = "builtin_results sys as"
  define target where "target = (if a_topN as \<le> 0 then 20 else a_topN as)"
  let ?all = "verified_resolvers ?R"
  have target: "0 < target" by (simp add: target_def)
  have quiet: "verifyResolversQuiet (s_unpack sys) (s_envs sys) (s_order sys)
      (shuffledResolvers (s_draws sys) as) (a_scanDomain as) (a_doh as) (a_workers as) (a_pubkey as) = Done ?R"
    using assms(2) by (simp add: verifyResolversQuiet_def run_workers_def builtin_results_def)
  have early: "early_collect target ?R [] None = (?all, if target \<le> int (length ?all) then Some (take (nat target) ?all) else None)"
    using early_collect_None [of "[]" target ?R] target by (simp add: Let_def)
  note stuck = stuck_update [OF assms(1,3)]
  show ?thesis
  proof (cases "\<forall>r \<in> set ?R. vr_Status r \<noteq> ''WORKING''")
    case True
    then have "?all = []" "working_resolvers ?R = []"
      using builtin_verified by (auto simp: verified_resolvers_def working_resolvers_def filter_empty_conv)
    moreover have "processResults ?R as = (Done (), as)"
      using True builtin_verified by (auto simp: processResults_def qualified_of_eq Let_def cap_empty filter_empty_conv)
    ultimately have "initialScanBuiltin sys as = (Done (), signalReady as)"
      using target early
      by (simp add: initialScanBuiltin_def verifyResolversWithEarlyReady_def Let_def quiet target_def [symmetric])
    with True show ?thesis by (simp add: nothing_or_stuck_def)
  next
    case False
    then have "working_resolvers ?R \<noteq> []" by (auto simp: working_resolvers_def filter_empty_conv)
    moreover define rs where "rs = (if target \<le> int (length ?all) then take (nat target) ?all
        else if ?all = [] then working_resolvers ?R else ?all)"
    moreover obtain p where "update_pool rs as = (Blocked, as\<lparr>a_pool := p\<rparr>)" "p_mu p = Writer"
      using update_pool_free [OF assms(1)] by metis
    ultimately have "initialScanBuiltin sys as = (Blocked, as\<lparr>a_pool := p\<rparr>)"
      using early target
      by (cases "target \<le> int (length ?all)"; cases "?all = []")
        (simp_all add: initialScanBuiltin_def verifyResolversWithEarlyReady_def Let_def quiet target_def [symmetric])
    with False assms(3) \<open>p_mu p = Writer\<close> show ?thesis by (simp add: nothing_or_stuck_def)
  qed
qed

lemma initialScan_cases:
  assumes "p_mu (a_pool as) = Readers 0" and "0 < a_workers as" and "\<not> a_ready as"
  shows "nothing_or_stuck as (\<forall>r \<in> set (builtin_results sys as). vr_Status r \<noteq> ''WORKING'') (initialScan sys as) \<or>
    (a_findns as \<noteq> None \<and> nothing_or_stuck as False (initialScan sys as))"
  using initialScanBuiltin_cases [OF assms, of sys] stuck_update [OF assms(1,3)]
  by (auto simp: initialScan_def split: option.split sum.split)

lemma builtin_none_working:
  "(\<forall>r \<in> set (builtin_results sys as). vr_Status r \<noteq> ''WORKING'') \<longleftrightarrow>
   (\<forall>i \<in> set (s_order sys). vr_Status (verify_one (s_unpack sys) (s_envs sys) (a_scanDomain as)
      (a_pubkey as) (a_doh as) i (shuffledResolvers (s_draws sys) as ! i)) \<noteq> ''WORKING'')"
  by (simp add: builtin_results_def)

text \<open>
  What a round can find: \<open>findns\<close>, when it can be run, a resolver in the given list or, after an empty list, in its own;
  the built-in scanner a resolver that works.
\<close>

definition findns_finds :: "scan_sys \<Rightarrow> autoscan \<Rightarrow> bool" where
  "findns_finds sys as \<longleftrightarrow>
     (case a_findns as of None \<Rightarrow> False
      | Some f \<Rightarrow> IsAvailable (s_lookPath sys) f \<and>
          (case Scan (s_findns sys) f (a_resolverFile as) of Inl e \<Rightarrow> False
           | Inr rs \<Rightarrow> rs \<noteq> [] \<or>
               (case Scan (s_findns_deep sys) f '''' of Inl e \<Rightarrow> False | Inr deep \<Rightarrow> deep \<noteq> [])))"

definition builtin_finds :: "scan_sys \<Rightarrow> autoscan \<Rightarrow> bool" where
  "builtin_finds sys as \<longleftrightarrow>
     (\<exists>i \<in> set (s_order sys). vr_Status (verify_one (s_unpack sys) (s_envs sys) (a_scanDomain as)
        (a_pubkey as) (a_doh as) i (shuffledResolvers (s_draws sys) as ! i)) = ''WORKING'')"

lemma initialScan_finds:
  assumes "p_mu (a_pool as) = Readers 0" and "0 < a_workers as" and "\<not> a_ready as"
  shows "nothing_or_stuck as (\<not> findns_finds sys as \<and> \<not> builtin_finds sys as) (initialScan sys as)"
proof -
  have "nothing_or_stuck as (\<not> builtin_finds sys as) (initialScanBuiltin sys as)"
    using initialScanBuiltin_cases [OF assms, of sys] builtin_none_working [of sys as] by (simp add: builtin_finds_def)
  then show ?thesis
    using stuck_update [OF assms(1,3)]
    by (auto simp: initialScan_def findns_finds_def split: option.split sum.split)
qed

text \<open>The initial scan signals that the services can start only when it has found nothing: as soon
  as \<open>findns\<close> or the built-in scanner comes up with a resolver to install, the scan is stuck in
  \<open>UpdateResolvers\<close> with the pool locked, and whoever waits for the signal waits for ever.\<close>

lemma initialScan_ready_iff_nothing:
  assumes "p_mu (a_pool as) = Readers 0" and "0 < a_workers as" and "\<not> a_ready as"
  shows "(fst (initialScan sys as) = Done () \<longleftrightarrow> a_ready (snd (initialScan sys as))) \<and>
    (a_ready (snd (initialScan sys as)) \<longrightarrow> a_pool (snd (initialScan sys as)) = a_pool as) \<and>
    (\<not> a_ready (snd (initialScan sys as)) \<longrightarrow> p_mu (a_pool (snd (initialScan sys as))) = Writer) \<and>
    (a_findns as = None \<longrightarrow> (a_ready (snd (initialScan sys as)) \<longleftrightarrow>
       (\<forall>i \<in> set (s_order sys). vr_Status (verify_one (s_unpack sys) (s_envs sys) (a_scanDomain as) (a_pubkey as)
            (a_doh as) i (shuffledResolvers (s_draws sys) as ! i)) \<noteq> ''WORKING'')))"
  using initialScan_cases [OF assms, of sys] builtin_none_working [of sys as]
  by (auto simp: nothing_or_stuck_def split: if_splits)

subsection \<open>Maintenance\<close>

text \<open>The check for a thinning pool does not see a pool whose resolvers are all down: unless the
  target is more than twice the length of the list, it finds it full and triggers no scan.\<close>

lemma maintain_blind:
  assumes "pool_inv (a_pool as)" and "p_mu (a_pool as) = Readers k"
    and "\<forall>r \<in> set (p_resolvers (a_pool as)). \<not> is_healthy (a_pool as) r"
    and "a_topN as \<le> 2 * int (length (p_resolvers (a_pool as))) + 1"
  shows "maintain as = (Done (), as)"
proof -
  have "p_healthyCache (a_pool as) = p_resolvers (a_pool as)"
    using pool_invD(4) [OF assms(1)] assms(3) by (simp add: up_or_all_none)
  then have "HealthyCount (a_pool as) = (Done (length (p_resolvers (a_pool as))), a_pool as)"
    using HealthyCount_Done [OF assms(2)] by simp
  moreover have "go_quot (a_topN as) 2 \<le> int (length (p_resolvers (a_pool as)))" if "0 < a_topN as"
    using that assms(4) by (simp add: go_quot_nonneg)
  ultimately show ?thesis by (fastforce simp: maintain_def Let_def)
qed

subsection \<open>The shuffle\<close>

lemma mset_swap_list: "i < length xs \<Longrightarrow> j < length xs \<Longrightarrow> mset (xs[i := xs ! j, j := xs ! i]) = mset xs"
  by (rule mset_swap)

lemma mset_shuffle_loop: "i < length xs \<or> i = 0 \<Longrightarrow> mset (shuffle_loop draws i xs) = mset xs"
proof (induction i arbitrary: xs)
  case (Suc i)
  define j where "j = draws i mod (Suc i + 1)"
  have "j < Suc i + 1" unfolding j_def by (rule mod_less_divisor) simp
  then have "j < length xs" "Suc i < length xs" using Suc.prems by simp_all
  then have "mset (xs[Suc i := xs ! j, j := xs ! Suc i]) = mset xs" by (intro mset_swap)
  moreover have "mset (shuffle_loop draws i (xs[Suc i := xs ! j, j := xs ! Suc i])) =
      mset (xs[Suc i := xs ! j, j := xs ! Suc i])"
    using Suc.prems by (intro Suc.IH) simp
  ultimately show ?case by (simp add: Let_def j_def)
qed simp

text \<open>A scan round tests resolvers of the full list, each at most as often as it is listed, and as
  many of them as \<open>maxSteps\<close> allows, or all.\<close>

lemma shuffledResolvers_samples:
  "mset (shuffledResolvers draws as) \<subseteq># mset (a_all as) \<and>
   length (shuffledResolvers draws as) =
     (if 0 < a_maxSteps as then min (nat (a_maxSteps as)) (length (a_all as)) else length (a_all as))"
proof -
  let ?sh = "shuffle_loop draws (length (a_all as) - 1) (a_all as)"
  have m: "mset ?sh = mset (a_all as)" by (rule mset_shuffle_loop) auto
  then have l: "length ?sh = length (a_all as)" by (metis size_mset)
  have "mset (take n ?sh) \<subseteq># mset ?sh" for n
    by (metis append_take_drop_id mset_append mset_subset_eq_add_left)
  with m l show ?thesis by (auto simp: shuffledResolvers_def Let_def)
qed

subsection \<open>Instances\<close>

text \<open>A resolver that answers every query with twelve bytes, and a DNS library that reads the right
  challenge for the nonce of sixteen zeros out of them.\<close>

definition ex_probe :: probe_env where
  "ex_probe = \<lparr>pe_build = \<lambda>_ _ _. Some [1], pe_net = \<lambda>_. ex_net (replicate 12 0), pe_rand = \<lambda>_. 0, pe_latency = 20\<rparr>"

definition ex_txt :: unpacker where
  "ex_txt raw = Some \<lparr>Question = [], Answer = [RR_TXT 0 [hex_EncodeToString (hmac_sha256 [1] (replicate 16 0))]],
     Ns = [], Extra = []\<rparr>"

lemma ex_draw_list: "run_state (draw_list ex_probe l n) (k, i) = (replicate l 0, (k, i + l))"
  by (induction l arbitrary: i) (simp_all add: State_Monad.bind_def State_Monad.return_def draw_def ex_probe_def)

lemma ex_verified:
  "verify_one ex_txt (\<lambda>_. ex_probe) td [1] False i ex_r1 =
     \<lparr>vr_Resolver = ex_r1, vr_Status = ''WORKING'', vr_Verified = True, vr_LatencyMs = 20\<rparr>"
proof -
  have send: "sendResolverQuery (pe_net ex_probe k) q ex_r1 False t = Inr (replicate 12 0)" for k q t
    by (simp add: sendResolverQuery_def sendQueryUDP_def ex_probe_def ex_net_def dnsBufferSize_def)
  have lat: "pe_latency ex_probe = 20" by (simp add: ex_probe_def)
  show ?thesis
    by (simp add: verify_one_def verifyResolver_def State_Monad.bind_def State_Monad.return_def randLabel_def
        ex_draw_list exchange_one_def send failed_status_def Let_def challenge_met_def ex_txt_def lat)
qed

theorem verified_means_hmac_witness:
  "\<exists>nonce vresp msg. length nonce = 16 \<and> ex_txt vresp = Some msg \<and>
     first_txt (Answer msg) = Some (hex_EncodeToString (hmac_sha256 [1] nonce))"
  using verified_means_hmac [of ex_txt "\<lambda>_. ex_probe" "''t''" "[1]" False 0 ex_r1] ex_verified by auto

lemma dotify_legal_witness: "\<exists>name. dotifyBase32 ''abcde'' 2 = Some name"
  using dotify_legal [of 2 "''abcde''"] by auto

definition ex_results :: "VerifyResult list" where
  "ex_results = [\<lparr>vr_Resolver = ex_r1, vr_Status = ''WORKING'', vr_Verified = False, vr_LatencyMs = 5\<rparr>,
     \<lparr>vr_Resolver = ex_r2, vr_Status = ''WORKING'', vr_Verified = True, vr_LatencyMs = 9\<rparr>]"

definition ex_as :: autoscan where
  "ex_as = NewAutoScanner ex_pool [ex_r1] ''t.example.com'' False [1] 300000000000 1 0 4"

definition ex_scan :: scan_sys where
  "ex_scan = \<lparr>s_draws = \<lambda>_. 0, s_unpack = ex_txt, s_envs = \<lambda>_. ex_probe, s_order = [0], s_lookPath = \<lambda>_. False,
     s_findns = \<lparr>fs_tmpDir = None, fs_run = \<lambda>_. False, fs_passed = None\<rparr>,
     s_findns_deep = \<lparr>fs_tmpDir = None, fs_run = \<lambda>_. False, fs_passed = None\<rparr>\<rparr>"

theorem processResults_selects_witness:
  "p_resolvers (a_pool (snd (processResults ex_results ex_as))) = [ex_r2]"
  using processResults_selects [of ex_as ex_results] by (simp add: ex_as_def NewAutoScanner_def ex_results_def)

lemma initialScan_ready_iff_nothing_witness: "\<not> a_ready (snd (initialScan ex_scan ex_as))"
  using initialScan_ready_iff_nothing [of ex_as ex_scan]
  by (simp add: ex_as_def NewAutoScanner_def ex_scan_def shuffledResolvers_def ex_verified)

definition ex_down :: pool where
  "ex_down = rebuildHealthyCache (ex_pool\<lparr>p_healthy := [ex_r1 \<mapsto> False, ex_r2 \<mapsto> False]\<rparr>)"

lemma ex_down_facts:
  "pool_inv ex_down" "p_mu ex_down = Readers 0" "p_resolvers ex_down = [ex_r1, ex_r2]"
  "\<forall>r \<in> set (p_resolvers ex_down). \<not> is_healthy ex_down r"
proof -
  have "dom (p_stats ex_pool) = {ex_r1, ex_r2}"
    by (auto simp: ex_pool_def NewResolverPool_def)
  then show "pool_inv ex_down"
    unfolding ex_down_def by (intro rebuild_inv) (auto simp: map_get_def split: if_splits)
qed (simp_all add: ex_down_def map_get_def)

lemma maintain_blind_witness: "maintain (ex_as\<lparr>a_pool := ex_down\<rparr>) = (Done (), ex_as\<lparr>a_pool := ex_down\<rparr>)"
  by (rule maintain_blind) (use ex_down_facts in \<open>simp_all add: ex_as_def NewAutoScanner_def\<close>)

end
