(* ===== verification/ResolverList.thy ===== *)
theory ResolverList
  imports Pool
begin

text \<open>
  The resolver list of \<open>main.go\<close>: reading resolvers from a file and from the command line, and
  the default file. A file system is a map from paths to contents.
\<close>

type_synonym file_system = "string \<Rightarrow> string option"

subsection \<open>Lines\<close>

text \<open>
  \<open>bufio.Scanner\<close> with its default split function and buffer: lines without their end marks; the
  scan stops for good at a line that does not fit the buffer of 65536 bytes.
\<close>

definition maxToken :: nat where
  "maxToken = 65536"

definition drop_last_empty :: "string list \<Rightarrow> string list" where
  "drop_last_empty ls = (if ls \<noteq> [] \<and> last ls = '''' then butlast ls else ls)"

definition scan_lines :: "string \<Rightarrow> string list" where
  "scan_lines s =
     map (\<lambda>l. TrimSuffix l [CHR 0x0D])
       (takeWhile (\<lambda>l. length l < maxToken) (drop_last_empty (Split s (CHR 0x0A))))"

subsection \<open>Resolvers\<close>

definition parseOneResolver :: "string \<Rightarrow> bool \<Rightarrow> Resolver option" where
  "parseOneResolver value doh =
     (let value = TrimSpace value in
      if doh then
        (if HasPrefix value ''https://'' then Some \<lparr>Addr = '''', URL = value\<rparr>
         else Some \<lparr>Addr = '''', URL = ''https://'' @ value @ ''/dns-query''\<rparr>)
      else if Contains value '':'' then Some \<lparr>Addr = value, URL = ''''\<rparr>
      else Some \<lparr>Addr = value @ '':53'', URL = ''''\<rparr>)"

fun parse_lines :: "string list \<Rightarrow> bool \<Rightarrow> Resolver list" where
  "parse_lines [] doh = []"
| "parse_lines (text # ls) doh =
     (let line = TrimSpace text in
      if line = '''' \<or> HasPrefix line ''#'' then parse_lines ls doh
      else case parseOneResolver line doh of None \<Rightarrow> parse_lines ls doh
           | Some r \<Rightarrow> r # parse_lines ls doh)"

fun parse_raw :: "string list \<Rightarrow> bool \<Rightarrow> Resolver list" where
  "parse_raw [] doh = []"
| "parse_raw (raw # raws) doh =
     (case parseOneResolver raw doh of None \<Rightarrow> parse_raw raws doh | Some r \<Rightarrow> r # parse_raw raws doh)"

definition parseResolvers :: "file_system \<Rightarrow> string \<Rightarrow> string list \<Rightarrow> bool \<Rightarrow> Resolver list" where
  "parseResolvers fs file rawResolvers doh =
     (if file \<noteq> '''' then
        (case fs file of None \<Rightarrow> [] | Some s \<Rightarrow> parse_lines (scan_lines s) doh)
      else []) @ parse_raw rawResolvers doh"

text \<open>The paths tried are made of the executable's directory and the working directory, if known.\<close>

fun first_resolved :: "file_system \<Rightarrow> bool \<Rightarrow> string list \<Rightarrow> Resolver list" where
  "first_resolved fs doh [] = []"
| "first_resolved fs doh (path # paths) =
     (let resolved = parseResolvers fs path [] doh
      in if 0 < length resolved then resolved else first_resolved fs doh paths)"

definition tryLoadDefaultResolvers :: "(string list \<Rightarrow> string) \<Rightarrow> file_system \<Rightarrow> string option \<Rightarrow> string option
    \<Rightarrow> bool \<Rightarrow> Resolver list" where
  "tryLoadDefaultResolvers join fs exeDir cwd doh =
     first_resolved fs doh
       ((case exeDir of None \<Rightarrow> [] | Some dir \<Rightarrow> [join [dir, ''resolvers.txt''], join [dir, ''..'', ''resolvers.txt'']]) @
        (case cwd of None \<Rightarrow> [] | Some dir \<Rightarrow> [join [dir, ''resolvers.txt'']]))"

subsection \<open>Trimming\<close>

lemma trim_by_not: "match_enc encs s = None \<Longrightarrow> trim_by encs s = s"
  by (subst trim_by.simps) simp

text \<open>A text that begins and ends with bytes of no space is left alone by \<open>TrimSpace\<close>.\<close>

definition plain_byte :: "char \<Rightarrow> bool" where
  "plain_byte c \<longleftrightarrow> (let k = of_char c :: nat in 33 \<le> k \<and> k < 127)"

lemma match_enc_plain:
  assumes "s = [] \<or> plain_byte (hd s)"
  shows "match_enc go_spaces s = None" and "match_enc (map rev go_spaces) s = None"
proof -
  have no: "\<not> HasPrefix s e" if "e \<noteq> []" "\<not> plain_byte (hd e)" for e
    using assms that by (cases s; cases e) (auto simp: HasPrefix_def)
  have "\<not> plain_byte (hd e)" if "e \<in> set go_spaces \<union> set (map rev go_spaces)" for e
    using that by (auto simp: go_spaces_def plain_byte_def)
  with no show "match_enc go_spaces s = None" and "match_enc (map rev go_spaces) s = None"
    by (auto simp: match_enc_def find_None_iff)
qed

lemma TrimSpace_plain:
  assumes "s \<noteq> []" and "plain_byte (hd s)" and "plain_byte (last s)"
  shows "TrimSpace s = s"
proof -
  have "trim_by go_spaces s = s" using assms by (intro trim_by_not match_enc_plain) simp
  moreover have "trim_by (map rev go_spaces) (rev s) = rev s"
    using assms by (intro trim_by_not match_enc_plain) (simp add: hd_rev)
  ultimately show ?thesis by (simp add: TrimSpace_def)
qed

lemma TrimSpace_Nil [simp]: "TrimSpace [] = []"
  by (simp add: TrimSpace_def trim_by_not)

subsection \<open>Reading back what the pool exports\<close>

text \<open>A resolver whose text is one line that the parser takes for a resolver of the same kind.\<close>

definition exportable :: "bool \<Rightarrow> Resolver \<Rightarrow> bool" where
  "exportable doh r \<longleftrightarrow>
     (let t = Resolver_String r in
      t \<noteq> '''' \<and> plain_byte (hd t) \<and> hd t \<noteq> CHR ''#'' \<and> plain_byte (last t) \<and>
      CHR 0x0A \<notin> set t \<and> length t < maxToken \<and>
      (if doh then Addr r = '''' \<and> HasPrefix (URL r) ''https://'' else URL r = '''' \<and> CHR '':'' \<in> set (Addr r)))"

lemma parseOne_exportable:
  assumes "exportable doh r"
  shows "parseOneResolver (Resolver_String r) doh = Some r"
proof -
  let ?t = "Resolver_String r"
  have ne: "?t \<noteq> ''''" using assms unfolding exportable_def Let_def by blast
  have trim: "TrimSpace ?t = ?t"
    using assms unfolding exportable_def Let_def by (intro TrimSpace_plain) auto
  show ?thesis
  proof (cases doh)
    case True
    then have "Addr r = ''''" "HasPrefix (URL r) ''https://''" using assms by (simp_all add: exportable_def Let_def)
    moreover from this ne have "?t = URL r" by (simp add: Resolver_String_def split: if_splits)
    ultimately show ?thesis using trim True by (simp add: parseOneResolver_def)
  next
    case False
    then have "URL r = ''''" "CHR '':'' \<in> set (Addr r)" using assms by (simp_all add: exportable_def Let_def)
    moreover from this have "?t = Addr r" by (simp add: Resolver_String_def)
    ultimately show ?thesis using trim False by (simp add: parseOneResolver_def)
  qed
qed

lemma export_lines:
  assumes "\<forall>r \<in> set rs. CHR 0x0A \<notin> set (Resolver_String r)"
  shows "Split (concat (map (\<lambda>r. Resolver_String r @ [CHR 0x0A]) rs)) (CHR 0x0A) = map Resolver_String rs @ [[]]"
  using assms by (induction rs) (simp_all add: Split_append)

lemma scan_export:
  assumes "\<forall>r \<in> set rs. exportable doh r"
  shows "scan_lines (concat (map (\<lambda>r. Resolver_String r @ [CHR 0x0A]) rs)) = map Resolver_String rs"
proof -
  have r: "CHR 0x0A \<notin> set (Resolver_String r)" "length (Resolver_String r) < maxToken"
    "TrimSuffix (Resolver_String r) [CHR 0x0D] = Resolver_String r" if "r \<in> set rs" for r
  proof -
    have "exportable doh r" using assms that by blast
    then have *: "Resolver_String r \<noteq> ''''" "plain_byte (last (Resolver_String r))"
      and "CHR 0x0A \<notin> set (Resolver_String r)" "length (Resolver_String r) < maxToken"
      unfolding exportable_def Let_def by blast+
    then show "CHR 0x0A \<notin> set (Resolver_String r)" "length (Resolver_String r) < maxToken" by blast+
    have "\<not> HasSuffix (Resolver_String r) [CHR 0x0D]"
      using * HasSuffixE by (fastforce simp: plain_byte_def)
    then show "TrimSuffix (Resolver_String r) [CHR 0x0D] = Resolver_String r" by (rule TrimSuffix_no)
  qed
  then have split: "Split (concat (map (\<lambda>r. Resolver_String r @ [CHR 0x0A]) rs)) (CHR 0x0A) = map Resolver_String rs @ [[]]"
    by (intro export_lines) blast
  have fits: "takeWhile (\<lambda>l. length l < maxToken) (map Resolver_String rs) = map Resolver_String rs"
    using r(2) by (subst takeWhile_eq_all_conv) auto
  have ends: "map (\<lambda>l. TrimSuffix l [CHR 0x0D]) (map Resolver_String rs) = map Resolver_String rs"
    using r(3) by simp
  show ?thesis
    unfolding scan_lines_def split drop_last_empty_def by (simp add: fits ends del: map_map)
qed

lemma parse_lines_export:
  "\<forall>r \<in> set rs. exportable doh r \<Longrightarrow> parse_lines (map Resolver_String rs) doh = rs"
proof (induction rs)
  case (Cons r rs)
  let ?t = "Resolver_String r"
  have e: "exportable doh r" using Cons.prems by simp
  then have t: "?t \<noteq> ''''" "plain_byte (hd ?t)" "plain_byte (last ?t)" "hd ?t \<noteq> CHR ''#''"
    unfolding exportable_def Let_def by blast+
  then have "TrimSpace ?t = ?t" "\<not> HasPrefix ?t ''#''"
    by (auto intro: TrimSpace_plain simp: HasPrefix_def take_Suc)
  with Cons t(1) parseOne_exportable [OF e] show ?case by simp
qed simp

text \<open>C38: the file of verified resolvers the pool writes reads back as exactly the resolvers that were
  healthy, in the order of the pool, when it is used as the resolvers file.\<close>

theorem export_reads_back:
  assumes "p_mu p = Readers k" and "\<forall>r \<in> set (p_resolvers p). exportable doh r"
    and "file \<noteq> ''''"
  shows "\<exists>text. ExportVerified p = (Done text, p) \<and>
     parseResolvers (fs(file \<mapsto> text)) file [] doh = filter (is_healthy p) (p_resolvers p)"
proof -
  let ?rs = "filter (is_healthy p) (p_resolvers p)"
  have "ExportVerified p = (Done (concat (map (\<lambda>r. Resolver_String r @ [CHR 0x0A]) ?rs)), p)"
    using assms(1) by (simp add: ExportVerified_def with_RLock_def)
  moreover have "\<forall>r \<in> set ?rs. exportable doh r" using assms(2) by simp
  ultimately show ?thesis
    using assms(3) by (simp add: parseResolvers_def scan_export parse_lines_export)
qed

theorem export_reads_back_witness:
  "\<exists>text. ExportVerified (NewResolverPool [\<lparr>Addr = ''1.1.1.1:53'', URL = ''''\<rparr>] ''random'' False) =
      (Done text, NewResolverPool [\<lparr>Addr = ''1.1.1.1:53'', URL = ''''\<rparr>] ''random'' False) \<and>
     parseResolvers [''v.txt'' \<mapsto> text] ''v.txt'' [] False = [\<lparr>Addr = ''1.1.1.1:53'', URL = ''''\<rparr>]"
  using export_reads_back [of "NewResolverPool [\<lparr>Addr = ''1.1.1.1:53'', URL = ''''\<rparr>] ''random'' False" 0 False "''v.txt''" Map.empty]
  by (simp add: NewResolverPool_def exportable_def Resolver_String_def plain_byte_def maxToken_def)

end
