(* ===== verification/Reload.thy ===== *)
theory Reload
  imports ResolverList PoolHealth
begin

text \<open>
  \<open>reload.go\<close>: the watcher that reloads the resolvers file when its modification time changes.
  \<open>l_held\<close> tells whether a call that never returned still holds the watcher's own mutex.
\<close>

record reloader =
  l_filePath :: string
  l_pool :: pool
  l_doh :: bool
  l_lastModTime :: int
  l_running :: bool
  l_held :: bool

text \<open>The zero value of \<open>time.Time\<close> is taken as 0; a file's modification time is later.\<close>

definition NewResolverReloader :: "string \<Rightarrow> pool \<Rightarrow> bool \<Rightarrow> reloader" where
  "NewResolverReloader filePath pool doh =
     \<lparr>l_filePath = filePath, l_pool = pool, l_doh = doh, l_lastModTime = 0, l_running = False, l_held = False\<rparr>"

definition Start_reloader :: "(string \<Rightarrow> int option) \<Rightarrow> reloader \<Rightarrow> reloader" where
  "Start_reloader stat r =
     (if l_filePath r = '''' then r
      else (case stat (l_filePath r) of None \<Rightarrow> r | Some t \<Rightarrow> r\<lparr>l_lastModTime := t\<rparr>)\<lparr>l_running := True\<rparr>)"

definition doReload :: "file_system \<Rightarrow> reloader \<Rightarrow> unit outcome \<times> reloader" where
  "doReload fs r =
     (let parsed = parseResolvers fs (l_filePath r) [] (l_doh r)
      in if length parsed = 0 then (Done (), r)
         else case UpdateResolvers parsed (l_pool r) of
                (Done _, p) \<Rightarrow> (Done (), r\<lparr>l_pool := p\<rparr>)
              | (Blocked, p) \<Rightarrow> (Blocked, r\<lparr>l_pool := p\<rparr>)
              | (Panic, p) \<Rightarrow> (Panic, r\<lparr>l_pool := p\<rparr>))"

definition locked :: "(reloader \<Rightarrow> unit outcome \<times> reloader) \<Rightarrow> reloader \<Rightarrow> unit outcome \<times> reloader" where
  "locked body r =
     (if l_held r then (Blocked, r)
      else case body r of
             (Done u, r') \<Rightarrow> (Done u, r')
           | (Blocked, r') \<Rightarrow> (Blocked, r'\<lparr>l_held := True\<rparr>)
           | (Panic, r') \<Rightarrow> (Panic, r'))"

definition Reload :: "file_system \<Rightarrow> reloader \<Rightarrow> unit outcome \<times> reloader" where
  "Reload fs = locked (doReload fs)"

definition checkAndReload :: "(string \<Rightarrow> int option) \<Rightarrow> file_system \<Rightarrow> reloader \<Rightarrow> unit outcome \<times> reloader" where
  "checkAndReload stat fs = locked (\<lambda>r.
     case stat (l_filePath r) of None \<Rightarrow> (Done (), r)
     | Some t \<Rightarrow> if t = l_lastModTime r then (Done (), r) else doReload fs (r\<lparr>l_lastModTime := t\<rparr>))"

subsection \<open>The loop\<close>

text \<open>
  What the polling goroutine wakes up for: a tick, with the file system as it finds it, or the closed \<open>stopCh\<close>. A
  loop that has run out of wake-ups is still waiting.
\<close>

datatype poll = Tick "string \<Rightarrow> int option" file_system | StopCh

definition Stop_reloader :: "reloader \<Rightarrow> reloader" where
  "Stop_reloader r = r\<lparr>l_running := False\<rparr>"

fun reload_loop :: "poll list \<Rightarrow> reloader \<Rightarrow> unit outcome \<times> reloader" where
  "reload_loop [] r = (Done (), r)"
| "reload_loop (Tick stat fs # ps) r = and_then (checkAndReload stat fs r) (\<lambda>_ r. reload_loop ps r)"
| "reload_loop (StopCh # ps) r = (Done (), r)"

text \<open>A file that does not change is left alone, however often it is looked at, by a watcher that saw it at its start.\<close>

lemma unchanged_file_quiet:
  assumes "l_lastModTime r = t" and "\<not> l_held r"
    and "\<forall>e \<in> set ps. \<forall>stat fs. e = Tick stat fs \<longrightarrow> stat (l_filePath r) = None \<or> stat (l_filePath r) = Some t"
  shows "reload_loop ps r = (Done (), r)"
  using assms(3)
proof (induction ps)
  case (Cons e ps)
  show ?case
  proof (cases e)
    case (Tick stat fs)
    with Cons.prems have "stat (l_filePath r) = None \<or> stat (l_filePath r) = Some t" by simp
    then have "checkAndReload stat fs r = (Done (), r)"
      using assms(1,2) by (auto simp: checkAndReload_def locked_def)
    with Tick Cons show ?thesis by simp
  qed simp
qed simp

subsection \<open>Reloading\<close>

text \<open>A hot reload of a file with at least one resolver never completes: the watcher is stuck with
  the pool locked and its own mutex held, so every later check and every forced reload is stuck as
  well; a reload happens exactly when the modification time has changed.\<close>

lemma reload_deadlocks:
  assumes "p_mu (l_pool r) = Readers 0" and "\<not> l_held r"
    and "stat (l_filePath r) = Some t" and "parseResolvers fs (l_filePath r) [] (l_doh r) \<noteq> []"
  shows "if t = l_lastModTime r then checkAndReload stat fs r = (Done (), r)
    else fst (checkAndReload stat fs r) = Blocked \<and> p_mu (l_pool (snd (checkAndReload stat fs r))) = Writer \<and>
      fst (Reload fs' (snd (checkAndReload stat fs r))) = Blocked \<and>
      fst (checkAndReload stat' fs' (snd (checkAndReload stat fs r))) = Blocked"
  using assms
  by (simp add: checkAndReload_def Reload_def locked_def doReload_def Let_def UpdateResolvers_free)

definition ex_reloader :: reloader where
  "ex_reloader = NewResolverReloader ''r.txt'' ex_pool False"

lemma reload_deadlocks_witness:
  "fst (checkAndReload (\<lambda>_. Some 7) [''r.txt'' \<mapsto> ''9.9.9.9:53''] ex_reloader) = Blocked"
proof -
  have "parseResolvers [''r.txt'' \<mapsto> ''9.9.9.9:53''] ''r.txt'' [] False \<noteq> []"
    by (simp add: parseResolvers_def scan_lines_def drop_last_empty_def maxToken_def TrimSuffix_def HasSuffix_def
        TrimSpace_plain plain_byte_def HasPrefix_def parseOneResolver_def)
  then show ?thesis
    using reload_deadlocks [of ex_reloader "\<lambda>_. Some 7" 7 "[''r.txt'' \<mapsto> ''9.9.9.9:53'']"]
    by (simp add: ex_reloader_def NewResolverReloader_def)
qed

end
