(* ===== verification/Composition.thy ===== *)
theory Composition
  imports Frozen AutoScanSpec Reload
begin

text \<open>
  The goroutines of the program together: the UDP loop with its workers, the connections of the TCP proxy, the health check, the auto-scanner, the callback
  of a resolver that goes down, the watcher of the resolvers file, and the main goroutine, as one step relation over the
  pool they share. A scan touches the pool only where it installs its resolvers, so it is one step here, taken at
  that point.
\<close>

subsection \<open>The system\<close>

datatype scan_phase = Starting | Looping | Halted

text \<open>
  The pool and the cache are those of the UDP proxy; the copies in the TCP proxy, the scanner and the watcher are replaced
  when they step. A connection of the TCP proxy is a worker from the moment its query has been read to the moment its
  answer is written; before and after it only takes a slot, so that there are never more of them than slots.
\<close>

record system =
  y_udp :: udp_proxy
  y_tcp :: udp_proxy
  y_scan :: autoscan
  y_phase :: scan_phase
  y_reload :: "reloader option"

abbreviation y_pool :: "system \<Rightarrow> pool" where
  "y_pool y \<equiv> u_pool (y_udp y)"

definition with_pool :: "pool \<Rightarrow> system \<Rightarrow> system" where
  "with_pool p y = y\<lparr>y_udp := (y_udp y)\<lparr>u_pool := p\<rparr>\<rparr>"

definition tcp_view :: "system \<Rightarrow> udp_proxy" where
  "tcp_view y = (y_tcp y)\<lparr>u_pool := y_pool y, u_cache := u_cache (y_udp y)\<rparr>"

definition tcp_update :: "udp_proxy \<Rightarrow> system \<Rightarrow> system" where
  "tcp_update t y = y\<lparr>y_udp := (y_udp y)\<lparr>u_pool := u_pool t, u_cache := u_cache t\<rparr>, y_tcp := t\<rparr>"

abbreviation y_workers :: "system \<Rightarrow> worker multiset" where
  "y_workers y \<equiv> u_workers (y_udp y) + u_workers (y_tcp y)"

definition scanner :: "system \<Rightarrow> autoscan" where
  "scanner y = (y_scan y)\<lparr>a_pool := y_pool y\<rparr>"

text \<open>A scan that does not return leaves its goroutine where it is.\<close>

definition scanned :: "unit outcome \<times> autoscan \<Rightarrow> system \<Rightarrow> system" where
  "scanned m y = (with_pool (a_pool (snd m)) y)\<lparr>y_scan := snd m, y_phase := (if is_done (fst m) then Looping else Halted)\<rparr>"

definition reloaded :: "unit outcome \<times> reloader \<Rightarrow> system \<Rightarrow> system" where
  "reloaded m y = (with_pool (l_pool (snd m)) y)\<lparr>y_reload := Some (snd m)\<rparr>"

inductive sys_step :: "system \<Rightarrow> system \<Rightarrow> bool" where
  proxy: "udp_step (y_udp y) u \<Longrightarrow> sys_step y (y\<lparr>y_udp := u\<rparr>)"
| tcp_query: "size (u_workers (y_tcp y)) < maxWorkers \<Longrightarrow> length data \<le> dnsBufferSize \<Longrightarrow>
    sys_step y (y\<lparr>y_tcp := (y_tcp y)\<lparr>u_workers := add_mset (W_lookup data) (u_workers (y_tcp y))\<rparr>\<rparr>)"
| tcp_work: "w \<in># u_workers (y_tcp y) \<Longrightarrow> worker_step unpack now draws net lat w (tcp_view y) = Some t \<Longrightarrow>
    sys_step y (tcp_update t y)"
| first_scan: "y_phase y = Starting \<Longrightarrow> sys_step y (scanned (initialScan ss (scanner y)) y)"
| wake_up: "y_phase y = Looping \<Longrightarrow> 0 < a_interval (y_scan y) \<Longrightarrow> wake ss w (scanner y) = Some m \<Longrightarrow>
    sys_step y (scanned m y)"
| scan_end: "y_phase y = Looping \<Longrightarrow> sys_step y (y\<lparr>y_phase := Halted\<rparr>)"
| down: "p_onResolverDown (y_pool y) \<Longrightarrow> sys_step y (y\<lparr>y_scan := TriggerRescan (y_scan y)\<rparr>)"
| ready: "a_ready (y_scan y) \<Longrightarrow> SetOnResolverDown True (y_pool y) = (Done (), p) \<Longrightarrow> sys_step y (with_pool p y)"
| poll: "y_reload y = Some r \<Longrightarrow> sys_step y (reloaded (checkAndReload stat fs (r\<lparr>l_pool := y_pool y\<rparr>)) y)"
| hup: "y_reload y = Some r \<Longrightarrow> sys_step y (reloaded (Reload fs (r\<lparr>l_pool := y_pool y\<rparr>)) y)"

inductive sys_reachable :: "system \<Rightarrow> bool" where
  start: "resolvers \<noteq> [] \<Longrightarrow> u = NewUDPProxy (NewResolverPool resolvers mode doh) cache \<Longrightarrow>
    sys_reachable \<lparr>y_udp = u, y_tcp = u, y_scan = as, y_phase = ph, y_reload = r\<rparr>"
| step: "sys_reachable y \<Longrightarrow> sys_step y y' \<Longrightarrow> sys_reachable y'"

subsection \<open>What the other goroutines do to the pool\<close>

text \<open>They leave it alone, or they call \<open>UpdateResolvers\<close> with at least one resolver.\<close>

definition installs :: "pool \<Rightarrow> pool \<Rightarrow> bool" where
  "installs p q \<longleftrightarrow> q = p \<or> (\<exists>rs. rs \<noteq> [] \<and> q = snd (UpdateResolvers rs p))"

lemma installs_refl [simp]: "installs p p"
  by (simp add: installs_def)

lemma UpdateResolvers_Blocked: "fst (UpdateResolvers rs p) = Blocked"
  by (cases "p_mu p = Readers 0") (simp_all add: UpdateResolvers_free, simp add: UpdateResolvers_def)

lemma update_pool_eq: "update_pool rs as = (Blocked, as\<lparr>a_pool := snd (UpdateResolvers rs (a_pool as))\<rparr>)"
  using UpdateResolvers_Blocked [of rs "a_pool as"]
  by (cases "UpdateResolvers rs (a_pool as)") (simp add: update_pool_def)

lemma installs_update: "rs \<noteq> [] \<Longrightarrow> installs (a_pool as) (a_pool (snd (update_pool rs as)))"
  by (auto simp: installs_def update_pool_eq)

lemma processResults_installs: "installs (a_pool as) (a_pool (snd (processResults results as)))"
  by (simp add: processResults_def Let_def installs_update)

lemma early_ready_ne:
  assumes "early_collect target results [] None = (verified, Some ready)" and "0 < target"
  shows "ready \<noteq> []"
  using assms early_collect_None [of "[]" target results]
  by (auto simp: Let_def split: if_splits)

lemma initialScanBuiltin_installs: "installs (a_pool as) (a_pool (snd (initialScanBuiltin sys as)))"
proof -
  define target where "target = (if a_topN as \<le> 0 then 20 else a_topN as)"
  have target: "0 < target" by (simp add: target_def)
  let ?quiet = "verifyResolversQuiet (s_unpack sys) (s_envs sys) (s_order sys)
      (shuffledResolvers (s_draws sys) as) (a_scanDomain as) (a_doh as) (a_workers as) (a_pubkey as)"
  let ?ready = "\<lambda>ready as. and_then (update_pool ready as) (\<lambda>_ as. (Done (), signalReady as))"
  have blocked: "and_then (?ready ready as) f = (Blocked, as\<lparr>a_pool := snd (UpdateResolvers ready (a_pool as))\<rparr>)"
    for ready and f :: "unit \<Rightarrow> autoscan \<Rightarrow> VerifyResult list outcome \<times> autoscan"
    by (simp add: update_pool_eq)
  have finish: "installs (a_pool as) (a_pool (snd (and_then (Done results, as)
      (\<lambda>results as. and_then (processResults results as) (\<lambda>_ as. (Done (), signalReady as))))))" for results
    using processResults_installs [of as results]
    by (cases "processResults results as"; cases "fst (processResults results as)") simp_all
  have stuck: "installs (a_pool as) (a_pool (snd (and_then (and_then (?ready ready as) (\<lambda>_ s. (Done results, s))) g)))"
    if "ready \<noteq> []" for ready and results :: "VerifyResult list" and g :: "VerifyResult list \<Rightarrow> autoscan \<Rightarrow> unit outcome \<times> autoscan"
    using that by (auto simp: update_pool_eq installs_def)
  show ?thesis
  proof (cases ?quiet)
    case (Done results)
    obtain verified early where e: "early_collect target results [] None = (verified, early)" by fastforce
    show ?thesis
    proof (cases early)
      case None
      define ready where "ready = (if verified = [] then working_resolvers results else verified)"
      have "initialScanBuiltin sys as = and_then
          (if ready = [] then (Done results, as) else and_then (?ready ready as) (\<lambda>_ s. (Done results, s)))
          (\<lambda>results as. and_then (processResults results as) (\<lambda>_ as. (Done (), signalReady as)))"
        using e None Done
        by (simp add: initialScanBuiltin_def verifyResolversWithEarlyReady_def target_def [symmetric] ready_def Let_def)
      then show ?thesis using finish stuck by (cases "ready = []") simp_all
    next
      case (Some ready)
      have "initialScanBuiltin sys as = and_then (and_then (?ready ready as) (\<lambda>_ s. (Done results, s)))
          (\<lambda>results as. and_then (processResults results as) (\<lambda>_ as. (Done (), signalReady as)))"
        using e Some Done
        by (simp add: initialScanBuiltin_def verifyResolversWithEarlyReady_def target_def [symmetric] Let_def)
      then show ?thesis using stuck [OF early_ready_ne [OF e [unfolded Some] target]] by simp
    qed
  qed (simp_all add: initialScanBuiltin_def verifyResolversWithEarlyReady_def Let_def)
qed

lemma initialScan_installs: "installs (a_pool as) (a_pool (snd (initialScan sys as)))"
proof -
  have "installs (a_pool as) (a_pool (snd (and_then (update_pool rs as) f)))" if "rs \<noteq> []" for rs and f :: "unit \<Rightarrow> autoscan \<Rightarrow> unit outcome \<times> autoscan"
    using that by (auto simp: update_pool_eq installs_def)
  then show ?thesis
    using initialScanBuiltin_installs [of as sys] by (simp add: initialScan_def split: option.split sum.split)
qed

lemma scanAndUpdate_installs: "installs (a_pool as) (a_pool (snd (scanAndUpdate sys as)))"
proof -
  have "installs (a_pool as) (a_pool (snd (scanAndUpdateBuiltin sys as)))"
    using processResults_installs by (simp add: scanAndUpdateBuiltin_def split: outcome.split)
  then show ?thesis
    using installs_update by (simp add: scanAndUpdate_def split: option.split sum.split)
qed

lemma wake_installs:
  assumes "wake sys w as = Some m"
  shows "installs (a_pool as) (a_pool (snd m))"
proof -
  have "a_pool (snd (maintain as)) = a_pool as"
    using HealthyCount_pool [of "a_pool as"]
    by (auto simp: maintain_def TriggerRescan_def Let_def split: prod.splits outcome.splits)
  with assms scanAndUpdate_installs [of as sys] scanAndUpdate_installs [of "as\<lparr>a_rescan := False\<rparr>" sys] show ?thesis
    by (auto simp: wake_def split: wakeup.splits if_splits)
qed

lemma doReload_installs: "installs (l_pool r) (l_pool (snd (doReload fs r)))"
proof -
  let ?parsed = "parseResolvers fs (l_filePath r) [] (l_doh r)"
  obtain p where p: "UpdateResolvers ?parsed (l_pool r) = (Blocked, p)"
    using UpdateResolvers_Blocked [of ?parsed "l_pool r"] by (cases "UpdateResolvers ?parsed (l_pool r)") simp
  then have "doReload fs r = (if ?parsed = [] then (Done (), r) else (Blocked, r\<lparr>l_pool := p\<rparr>))"
    by (simp add: doReload_def Let_def)
  with p show ?thesis by (auto simp: installs_def intro: sym)
qed

lemma locked_installs:
  assumes "\<And>r. installs (l_pool r) (l_pool (snd (body r)))"
  shows "installs (l_pool r) (l_pool (snd (locked body r)))"
  using assms [of r] by (auto simp: locked_def split: prod.splits outcome.splits)

lemma reload_installs:
  "installs (l_pool r) (l_pool (snd (Reload fs r)))"
  "installs (l_pool r) (l_pool (snd (checkAndReload stat fs r)))"
proof -
  show "installs (l_pool r) (l_pool (snd (Reload fs r)))"
    unfolding Reload_def by (rule locked_installs) (rule doReload_installs)
  show "installs (l_pool r) (l_pool (snd (checkAndReload stat fs r)))"
    unfolding checkAndReload_def
  proof (rule locked_installs)
    fix r
    show "installs (l_pool r) (l_pool (snd (case stat (l_filePath r) of None \<Rightarrow> (Done (), r)
        | Some t \<Rightarrow> if t = l_lastModTime r then (Done (), r) else doReload fs (r\<lparr>l_lastModTime := t\<rparr>))))"
      using doReload_installs [of "r\<lparr>l_lastModTime := t\<rparr>" fs for t] by (simp split: option.split)
  qed
qed

subsection \<open>What the pool sees of a step\<close>

text \<open>Every step is one of a proxy's, an installation, or the registration of the callback.\<close>

lemma sys_step_cases:
  assumes "sys_step y y'"
  obtains (Proxy) "udp_step (y_udp y) (y_udp y')" and "y_tcp y' = y_tcp y"
  | (Query) data where "y_udp y' = y_udp y" and "size (u_workers (y_tcp y)) < maxWorkers"
      and "y_tcp y' = (y_tcp y)\<lparr>u_workers := add_mset (W_lookup data) (u_workers (y_tcp y))\<rparr>"
  | (Conn) w unpack now draws net lat where "w \<in># u_workers (y_tcp y)"
      and "worker_step unpack now draws net lat w (tcp_view y) = Some (y_tcp y')"
      and "y_udp y' = (y_udp y)\<lparr>u_pool := u_pool (y_tcp y'), u_cache := u_cache (y_tcp y')\<rparr>"
  | (Pool) p where "installs (y_pool y) p" and "y_udp y' = (y_udp y)\<lparr>u_pool := p\<rparr>" and "y_tcp y' = y_tcp y"
  | (Callback) p where "SetOnResolverDown True (y_pool y) = (Done (), p)" and "y_udp y' = (y_udp y)\<lparr>u_pool := p\<rparr>"
      and "y_tcp y' = y_tcp y"
  using assms
proof cases
  case (first_scan ss)
  then show ?thesis
    using initialScan_installs [of "scanner y" ss] by (intro Pool) (simp_all add: scanned_def with_pool_def scanner_def)
next
  case (wake_up ss w m)
  then show ?thesis
    using wake_installs [of ss w "scanner y" m] by (intro Pool) (simp_all add: scanned_def with_pool_def scanner_def)
next
  case (poll r stat fs)
  then show ?thesis
    using reload_installs(2) [of "r\<lparr>l_pool := y_pool y\<rparr>" stat fs]
    by (intro Pool) (simp_all add: reloaded_def with_pool_def)
next
  case (hup r fs)
  then show ?thesis
    using reload_installs(1) [of "r\<lparr>l_pool := y_pool y\<rparr>" fs]
    by (intro Pool) (simp_all add: reloaded_def with_pool_def)
next
  case (ready p)
  then show ?thesis by (intro Callback) (simp_all add: with_pool_def)
next
  case (tcp_work w unpack now draws net lat t)
  then show ?thesis by (intro Conn) (simp_all add: tcp_update_def)
qed (auto intro: Proxy Query Pool [of "y_pool y"])

subsection \<open>The invariant\<close>

text \<open>
  The counters are exact whether the pool is locked for good or not; \<open>unlocked\<close> forgets the lock, and what a proxy
  still does on a locked pool it does in the same way without the lock.
\<close>

definition unlocked :: "pool \<Rightarrow> pool" where
  "unlocked p = p\<lparr>p_mu := Readers 0\<rparr>"

definition thaw :: "udp_proxy \<Rightarrow> udp_proxy" where
  "thaw u = u\<lparr>u_pool := unlocked (u_pool u)\<rparr>"

lemma unlocked_simps [simp]:
  "p_mu p = Readers 0 \<Longrightarrow> unlocked p = p" "pool_inv (unlocked p) = pool_inv p" "p_mu (unlocked p) = Readers 0"
  "pool_owed (unlocked p) = pool_owed p"
  by (simp_all add: unlocked_def pool_owed_def [abs_def])

lemma thaw_simps [simp]:
  "u_pool (thaw u) = unlocked (u_pool u)" "u_workers (thaw u) = u_workers u"
  by (simp_all add: thaw_def)

lemma installed_accounts:
  assumes "accounts p W" and "rs \<noteq> []"
  shows "accounts (unlocked (snd (UpdateResolvers rs p))) W"
proof -
  let ?q = "unlocked (snd (UpdateResolvers rs p))"
  have ready: "pool_inv p" "p_mu p = Readers 0" using accountsD(1) [OF assms(1)] by (simp_all add: pool_ready_def)
  have stats: "p_stats ?q r = (if p_stats p r = None \<and> r \<in> set rs then Some new_stats else p_stats p r)" for r
    using ready(2) by (simp add: UpdateResolvers_free add_resolvers_stats unlocked_def)
  have "pool_owed ?q = pool_owed p"
    unfolding pool_owed_def [abs_def] by (auto simp: stats map_get_def new_stats_def fun_eq_iff Let_def split: option.split)
  moreover have "pool_known p \<subseteq> pool_known ?q" by (auto simp: pool_known_def stats)
  moreover have "pool_ready ?q" using ready assms(2) add_resolvers_inv by (simp add: pool_ready_def UpdateResolvers_free)
  ultimately show ?thesis using assms(1) by (auto simp: accounts_def)
qed

lemma worker_frozen:
  assumes "p_mu (u_pool u) = Writer" and "worker_step unpack now draws net lat w u = Some u'"
  shows "worker_step unpack now draws net lat w (thaw u) = Some (thaw u')"
proof -
  note blocks = Writer_blocks [OF assms(1)]
  have send: "SendQuery n d r (p\<lparr>p_mu := m\<rparr>) = SendQuery n d r p" for n d r and p :: pool and m
    by (rule SendQuery_cong) simp
  show ?thesis
    using assms(2) blocks
    by (cases w) (auto simp: thaw_def unlocked_def on_pool_def add_sent_def send split: option.splits prod.splits sum.splits)
qed

lemma udp_step_frozen:
  assumes "udp_step u u'" and "p_mu (u_pool u) = Writer"
  shows "udp_step (thaw u) (thaw u')"
  using assms(1)
proof cases
  case (read dgram)
  then have "thaw u' = (thaw u)\<lparr>u_held := Some (take dnsBufferSize dgram), u_queryCount := u_queryCount (thaw u) + 1\<rparr>"
    by (simp add: thaw_def)
  moreover have "u_held (thaw u) = None" using read by (simp add: thaw_def)
  ultimately show ?thesis using udp_step.read [of "thaw u" dgram] read by simp
next
  case (spawn data)
  then have "thaw u' = (thaw u)\<lparr>u_held := None, u_workers := add_mset (W_lookup data) (u_workers (thaw u))\<rparr>"
    by (simp add: thaw_def)
  moreover have "u_held (thaw u) = Some data" "size (u_workers (thaw u)) < maxWorkers" using spawn by (simp_all add: thaw_def)
  ultimately show ?thesis using udp_step.spawn [of "thaw u" data] spawn by simp
next
  case (work w unpack now draws net lat)
  with worker_frozen [OF assms(2) work(2)] udp_step.work [of w "thaw u" unpack now draws net lat "thaw u'"] show ?thesis
    by simp
next
  case (check order mkquery nets p)
  with assms(2) show ?thesis by (simp add: Writer_blocks)
qed

definition sys_inv :: "system \<Rightarrow> bool" where
  "sys_inv y \<longleftrightarrow> accounts (unlocked (y_pool y)) (y_workers y) \<and>
     size (u_workers (y_udp y)) \<le> maxWorkers \<and> size (u_workers (y_tcp y)) \<le> maxWorkers \<and>
     (p_mu (y_pool y) = Readers 0 \<or> p_mu (y_pool y) = Writer)"

lemma installs_frozen: "p_mu p = Writer \<Longrightarrow> installs p q \<Longrightarrow> q = p"
  by (auto simp: installs_def Writer_blocks)

lemma tcp_view_simps [simp]:
  "u_pool (tcp_view y) = y_pool y" "u_workers (tcp_view y) = u_workers (y_tcp y)" "u_cache (tcp_view y) = u_cache (y_udp y)"
  by (simp_all add: tcp_view_def)

text \<open>A locked pool stays as it is but for the sent counters, which the workers past their lookup still add to.\<close>

lemma sys_step_frozen:
  assumes "sys_step y y'" and "p_mu (y_pool y) = Writer"
  shows "only_added (y_pool y) (y_workers y) (y_pool y') (y_workers y')"
  using assms(1)
proof (cases rule: sys_step_cases)
  case Proxy
  with only_added_frame [OF udp_step_only_added [OF Proxy(1) assms(2)], of "u_workers (y_tcp y)"] show ?thesis by simp
next
  case (Query data)
  then show ?thesis using only_added_same [of "y_workers y'" "y_workers y" "y_pool y"] by simp
next
  case (Conn w unpack now draws net lat)
  have "only_added (y_pool y) (u_workers (y_tcp y)) (u_pool (y_tcp y')) (u_workers (y_tcp y'))"
    using work_only_added [OF _ _ Conn(2)] Conn(1) assms(2) by simp
  from only_added_frame [OF this, of "u_workers (y_udp y)"] Conn(3) show ?thesis by (simp add: add.commute)
next
  case (Pool p)
  then have "p = y_pool y" using installs_frozen [OF assms(2)] by blast
  with Pool show ?thesis using only_added_same [of "y_workers y'" "y_workers y" "y_pool y"] by simp
qed (use assms(2) in \<open>simp add: Writer_blocks\<close>)

lemma sys_step_sizes:
  assumes "sys_step y y'" and "size (u_workers (y_udp y)) \<le> maxWorkers" and "size (u_workers (y_tcp y)) \<le> maxWorkers"
  shows "size (u_workers (y_udp y')) \<le> maxWorkers \<and> size (u_workers (y_tcp y')) \<le> maxWorkers"
  using assms(1)
proof (cases rule: sys_step_cases)
  case (Conn w unpack now draws net lat)
  then have "size (u_workers (y_tcp y')) \<le> size (u_workers (y_tcp y))"
    using worker_step_size [of w "tcp_view y"] by simp
  with Conn(3) assms show ?thesis by simp
qed (use assms(2,3) udp_step_size in auto)

lemma frozen_accounts:
  assumes "sys_step y y'" and "p_mu (y_pool y) = Writer" and "accounts (unlocked (y_pool y)) (y_workers y)"
  shows "accounts (unlocked (y_pool y')) (y_workers y')"
  using assms(1)
proof (cases rule: sys_step_cases)
  case Proxy
  with udp_step_frozen [OF _ assms(2)] have "udp_step (thaw (y_udp y)) (thaw (y_udp y'))" by blast
  from udp_step_accounts [OF this, of "u_workers (y_tcp y)"] assms(3) Proxy(2) show ?thesis by simp
next
  case (Query data)
  with assms(3) show ?thesis by (auto simp: accounts_def in_flight_add)
next
  case (Conn w unpack now draws net lat)
  have "worker_step unpack now draws net lat w (thaw (tcp_view y)) = Some (thaw (y_tcp y'))"
    using worker_frozen [OF _ Conn(2)] assms(2) by simp
  from worker_step_accounts [OF _ _ this, of "u_workers (y_udp y)"] Conn(1,3) assms(3) show ?thesis
    by (simp add: add.commute)
next
  case (Pool p)
  then have "p = y_pool y" using installs_frozen [OF assms(2)] by blast
  with Pool assms(3) show ?thesis by simp
next
  case (Callback p)
  with assms(2) show ?thesis by (simp add: Writer_blocks)
qed

lemma free_step_inv:
  assumes "sys_step y y'" and "accounts (y_pool y) (y_workers y)"
  shows "accounts (unlocked (y_pool y')) (y_workers y') \<and> (p_mu (y_pool y') = Readers 0 \<or> p_mu (y_pool y') = Writer)"
proof -
  have free: "p_mu p = Readers 0" if "accounts p W" for p W using accountsD(1) [OF that] by (simp add: pool_ready_def)
  have kept: ?thesis if "accounts (y_pool y') (y_workers y')" using that free [OF that] by simp
  from assms(1) show ?thesis
  proof (cases rule: sys_step_cases)
    case Proxy
    with udp_step_accounts [OF Proxy(1), of "u_workers (y_tcp y)"] assms(2) show ?thesis by (intro kept) simp
  next
    case (Query data)
    with assms(2) show ?thesis by (intro kept) (auto simp: accounts_def in_flight_add)
  next
    case (Conn w unpack now draws net lat)
    with worker_step_accounts [OF _ _ Conn(2), of "u_workers (y_udp y)"] assms(2) show ?thesis
      by (intro kept) (simp add: add.commute)
  next
    case (Pool p)
    show ?thesis
    proof (cases "p = y_pool y")
      case True
      with Pool(2,3) assms(2) show ?thesis by (intro kept) simp
    next
      case False
      with Pool(1) obtain rs where rs: "rs \<noteq> []" "p = snd (UpdateResolvers rs (y_pool y))" by (auto simp: installs_def)
      then have "p_mu p = Writer" using free [OF assms(2)] by (simp add: UpdateResolvers_free)
      with installed_accounts [OF assms(2) rs(1)] Pool(2,3) rs(2) show ?thesis by simp
    qed
  next
    case (Callback p)
    then have p: "p = (y_pool y)\<lparr>p_onResolverDown := True\<rparr>"
      using free [OF assms(2)] by (simp add: SetOnResolverDown_def with_Lock_def)
    have "pool_ready p" "pool_owed p = pool_owed (y_pool y)" "pool_known p = pool_known (y_pool y)"
      using accountsD(1) [OF assms(2)] by (simp_all add: p pool_ready_def pool_owed_def [abs_def] pool_known_def)
    with Callback(2,3) assms(2) show ?thesis by (intro kept) (simp add: accounts_def)
  qed
qed

lemma sys_step_inv:
  assumes "sys_step y y'" and "sys_inv y"
  shows "sys_inv y'"
proof -
  have "accounts (unlocked (y_pool y')) (y_workers y') \<and> (p_mu (y_pool y') = Readers 0 \<or> p_mu (y_pool y') = Writer)"
  proof (cases "p_mu (y_pool y) = Writer")
    case True
    with frozen_accounts [OF assms(1)] only_added_mu [OF sys_step_frozen [OF assms(1)]] assms(2) show ?thesis
      by (simp add: sys_inv_def)
  next
    case False
    with free_step_inv [OF assms(1)] assms(2) show ?thesis by (auto simp: sys_inv_def)
  qed
  with sys_step_sizes [OF assms(1)] assms(2) show ?thesis by (simp add: sys_inv_def)
qed

lemma sys_reachable_inv: "sys_reachable y \<Longrightarrow> sys_inv y"
proof (induction rule: sys_reachable.induct)
  case (start resolvers u mode doh cache as ph r)
  have "udp_inv u" using udp_reachable_inv [OF udp_reachable.start [OF start(1)]] start(2) by simp
  moreover have "u_workers u = {#}" using start(2) by (simp add: NewUDPProxy_def)
  ultimately show ?case using udp_invD(1) [of u] by (simp add: sys_inv_def udp_inv_def pool_ready_def)
qed (rule sys_step_inv)

subsection \<open>Properties\<close>

text \<open>C4: whatever the order in which the workers of both proxies, health checks, scans, reloads and the main goroutine take
  their steps, the counters are exact: for every resolver, what was counted as sent and not yet as answered or failed is the
  number of workers that have a query to it outstanding. Neither proxy ever has more than 256 workers, and the pool is
  always well formed and either free or locked for good.\<close>

theorem system_counters_exact:
  assumes "sys_reachable y"
  shows "pool_owed (y_pool y) r = of_nat (size (filter_mset (outstanding r) (y_workers y))) \<and>
    size (u_workers (y_udp y)) \<le> 256 \<and> size (u_workers (y_tcp y)) \<le> 256 \<and> pool_inv (y_pool y) \<and>
    (p_mu (y_pool y) = Readers 0 \<or> p_mu (y_pool y) = Writer)"
proof -
  have inv: "sys_inv y" using sys_reachable_inv [OF assms] .
  then have "accounts (unlocked (y_pool y)) (y_workers y)" by (simp add: sys_inv_def)
  with accountsD [OF this] inv show ?thesis by (simp add: sys_inv_def in_flight_def maxWorkers_def pool_ready_def)
qed

lemma system_can_step:
  assumes "sys_reachable y" and "p_mu (y_pool y) \<noteq> Writer"
  shows "w \<in># u_workers (y_udp y) \<Longrightarrow> \<exists>u'. worker_step unpack now draws net lat w (y_udp y) = Some u'"
    and "w \<in># u_workers (y_tcp y) \<Longrightarrow> \<exists>t. worker_step unpack now draws net lat w (tcp_view y) = Some t"
proof -
  have "accounts (y_pool y) (y_workers y)" using sys_reachable_inv [OF assms(1)] assms(2) by (auto simp: sys_inv_def)
  then show "w \<in># u_workers (y_udp y) \<Longrightarrow> \<exists>u'. worker_step unpack now draws net lat w (y_udp y) = Some u'"
    and "w \<in># u_workers (y_tcp y) \<Longrightarrow> \<exists>t. worker_step unpack now draws net lat w (tcp_view y) = Some t"
    using worker_can_step [of "y_udp y" "y_workers y" w] worker_can_step [of "tcp_view y" "y_workers y" w] by simp_all
qed


lemma pool_ops_resolvers:
  assumes "pool_ready p"
  shows "GetNext d p = (Done r, q) \<Longrightarrow> p_resolvers q = p_resolvers p"
    and "find_stats r p = (Done u, q) \<Longrightarrow> p_resolvers q = p_resolvers p"
    and "add_sent r p = (Done u, q) \<Longrightarrow> p_resolvers q = p_resolvers p"
    and "MarkSuccessWithLatency r l p = (Done u, q) \<Longrightarrow> p_resolvers q = p_resolvers p"
    and "MarkFailure r p = (Done b, q) \<Longrightarrow> p_resolvers q = p_resolvers p"
    and "HealthCheck mkquery nets order p = (Done u, q) \<Longrightarrow> p_resolvers q = p_resolvers p"
proof -
  have free: "p_mu p = Readers 0" using assms by (simp add: pool_ready_def)
  show "GetNext d p = (Done r, q) \<Longrightarrow> p_resolvers q = p_resolvers p"
    using pool_ops_ready(1) [OF assms] by (auto dest: pool_ops_ready(1) [OF assms])
  show "find_stats r p = (Done u, q) \<Longrightarrow> p_resolvers q = p_resolvers p"
    and "add_sent r p = (Done u, q) \<Longrightarrow> p_resolvers q = p_resolvers p"
    by (auto simp: find_stats_def add_sent_def split: option.splits)
  show "MarkSuccessWithLatency r l p = (Done u, q) \<Longrightarrow> p_resolvers q = p_resolvers p"
    using free by (auto simp: MarkSuccessWithLatency_def with_Lock_def Let_def split: option.splits if_splits)
  show "MarkFailure r p = (Done b, q) \<Longrightarrow> p_resolvers q = p_resolvers p"
    using free by (auto simp: MarkFailure_def with_Lock_def Let_def split: option.splits if_splits)
  show "HealthCheck mkquery nets order p = (Done u, q) \<Longrightarrow> p_resolvers q = p_resolvers p"
    using free by (auto simp: HealthCheck_def with_Lock_def Let_def split: option.splits)
qed

lemma worker_step_resolvers:
  assumes "worker_step unpack now draws net lat w u = Some u'" and "pool_ready (u_pool u)"
  shows "p_resolvers (u_pool u') = p_resolvers (u_pool u)"
  using assms(1)
  by (cases w) (auto simp: on_pool_Some dest: pool_ops_resolvers [OF assms(2)] split: option.splits prod.splits outcome.splits if_splits)

lemma udp_step_resolvers:
  assumes "udp_step u u'" and "pool_ready (u_pool u)"
  shows "p_resolvers (u_pool u') = p_resolvers (u_pool u)"
  using assms(1)
proof cases
  case (work w unpack now draws net lat)
  then show ?thesis using worker_step_resolvers assms(2) by blast
next
  case (check order mkquery nets p)
  then show ?thesis using pool_ops_resolvers(6) [OF assms(2)] by auto
qed simp_all

lemma replaced_locks:
  assumes "sys_reachable y" and "sys_step y y1" and "p_resolvers (y_pool y1) \<noteq> p_resolvers (y_pool y)"
  shows "p_mu (y_pool y1) = Writer"
proof -
  have inv: "sys_inv y" using sys_reachable_inv [OF assms(1)] .
  have free: "p_mu (y_pool y) = Readers 0"
    using inv but_sentD(2) [of "y_pool y1" "y_pool y"] sys_step_frozen [OF assms(2)] assms(3)
    by (auto simp: sys_inv_def only_added_def)
  then have ready: "pool_ready (y_pool y)" using inv accountsD(1) [of "y_pool y" "y_workers y"] by (simp add: sys_inv_def)
  from assms(2) show ?thesis
  proof (cases rule: sys_step_cases)
    case Proxy
    then show ?thesis using udp_step_resolvers ready assms(3) by simp
  next
    case (Conn w unpack now draws net lat)
    then show ?thesis using worker_step_resolvers [OF Conn(2)] ready assms(3) by simp
  next
    case (Pool p)
    with assms(3) free show ?thesis by (auto simp: installs_def UpdateResolvers_free)
  next
    case (Callback p)
    with assms(3) free show ?thesis by (auto simp: SetOnResolverDown_def with_Lock_def)
  qed (use assms(3) in simp)
qed

text \<open>What a locked pool leaves of a step: the UDP proxy is as stuck as \<open>Frozen\<close> says, and the TCP proxy only writes what
  it has.\<close>

definition tcp_answers :: "system \<Rightarrow> nat" where
  "tcp_answers y = length (u_replies (y_tcp y)) + answers_left (y_tcp y)"

lemma stuck_step_pool: "u_cache u = None \<Longrightarrow> p_mu p = p_mu (u_pool u) \<Longrightarrow> stuck_step u (u\<lparr>u_pool := p, u_cache := None\<rparr>)"
  by (simp add: stuck_step_def answers_left_def taken_def)

lemma stuck_step_refl: "u_cache u = None \<Longrightarrow> stuck_step u u"
  by (simp add: stuck_step_def)

lemma frozen_step:
  assumes "sys_step y y'" and "p_mu (y_pool y) = Writer" and "u_cache (y_udp y) = None"
  shows "stuck_step (y_udp y) (y_udp y') \<and> tcp_answers y' = tcp_answers y"
  using assms(1)
proof (cases rule: sys_step_cases)
  case Proxy
  then show ?thesis using udp_step_stuck [OF Proxy(1) assms(2,3)] by (simp add: tcp_answers_def)
next
  case (Query data)
  then show ?thesis using assms(3) by (simp add: tcp_answers_def answers_left_def stuck_step_refl)
next
  case (Conn w unpack now draws net lat)
  have "stuck_step (tcp_view y) (y_tcp y')"
    by (rule work_stuck [OF _ _ _ Conn(2)]) (use Conn(1) assms(2,3) in simp_all)
  then show ?thesis
    using Conn(3) assms(3) stuck_step_pool [of "y_udp y" "u_pool (y_tcp y')"]
    by (simp add: stuck_step_def tcp_answers_def answers_left_def tcp_view_def)
next
  case (Pool p)
  then have "p = y_pool y" using installs_frozen [OF assms(2)] by blast
  with Pool assms(3) show ?thesis by (simp add: tcp_answers_def stuck_step_refl)
next
  case (Callback p)
  with assms(2) show ?thesis by (simp add: Writer_blocks)
qed

lemma frozen_run:
  assumes "sys_step\<^sup>*\<^sup>* y y'" and "p_mu (y_pool y) = Writer" and "u_cache (y_udp y) = None"
    and "size (u_workers (y_udp y)) \<le> maxWorkers"
  shows "stuck_run (y_udp y) (y_udp y') \<and> tcp_answers y' = tcp_answers y \<and>
    only_added (y_pool y) (y_workers y) (y_pool y') (y_workers y')"
  using assms(1)
proof (induction rule: rtranclp_induct)
  case base
  show ?case using assms(3,4) by (simp add: stuck_run_refl only_added_same)
next
  case (step y' y'')
  then have "p_mu (y_pool y') = Writer" "u_cache (y_udp y') = None" using assms(2) by (simp_all add: stuck_run_def)
  from sys_step_frozen [OF step.hyps(2) this(1)] frozen_step [OF step.hyps(2) this] step.IH show ?case
    using stuck_run_step only_added_trans by metis
qed

text \<open>C3: the program as a whole serves nobody once any scan, reload or signal has replaced the resolver list: from that
  step on, whatever the goroutines do, a program without a cache takes at most 257 more queries over UDP and answers over
  UDP and TCP only what it had received an answer for before. The pool never changes again but for the sent counters, to
  which the workers that had looked them up before still add, once each.\<close>

theorem replaced_list_ends_service:
  assumes "sys_reachable y" and "sys_step y y1" and "p_resolvers (y_pool y1) \<noteq> p_resolvers (y_pool y)"
    and "u_cache (y_udp y1) = None" and "sys_step\<^sup>*\<^sup>* y1 y2"
  shows "(\<exists>k\<le>257. u_queryCount (y_udp y2) = u_queryCount (y_udp y1) + of_nat k) \<and>
    length (u_replies (y_udp y2)) \<le> length (u_replies (y_udp y1)) + size (filter_mset answering (u_workers (y_udp y1))) \<and>
    length (u_replies (y_tcp y2)) \<le> length (u_replies (y_tcp y1)) + size (filter_mset answering (u_workers (y_tcp y1))) \<and>
    but_sent (y_pool y2) = but_sent (y_pool y1) \<and>
    (\<forall>r. \<exists>k \<le> additions r (y_workers y1). sent_of (y_pool y2) r = sent_of (y_pool y1) r + of_nat k)"
proof -
  note locked = replaced_locks [OF assms(1-3)]
  have "sys_inv y1" using sys_reachable_inv [OF sys_reachable.step [OF assms(1,2)]] .
  then have "size (u_workers (y_udp y1)) \<le> maxWorkers" by (simp add: sys_inv_def)
  note run = frozen_run [OF assms(5) locked assms(4) this]
  then have "only_added (y_pool y1) (y_workers y1) (y_pool y2) (y_workers y2)" by blast
  then have "but_sent (y_pool y2) = but_sent (y_pool y1)"
    "\<exists>k \<le> additions r (y_workers y1). sent_of (y_pool y2) r = sent_of (y_pool y1) r + of_nat k" for r
    unfolding only_added_def by (blast, metis le_add2)
  moreover have "length (u_replies (y_tcp y2)) \<le> length (u_replies (y_tcp y1)) + size (filter_mset answering (u_workers (y_tcp y1)))"
    using run by (simp add: tcp_answers_def answers_left_def)
  ultimately show ?thesis using stuck_run_bounds run by blast
qed

subsection \<open>Witnesses\<close>

text \<open>A program that watches its resolvers file, just started, and the state after a hang-up signal.\<close>

definition ex_system :: system where
  "ex_system = \<lparr>y_udp = NewUDPProxy ex_pool None, y_tcp = NewUDPProxy ex_pool None, y_scan = ex_as, y_phase = Starting, y_reload = Some ex_reloader\<rparr>"

definition ex_files :: file_system where
  "ex_files = [''r.txt'' \<mapsto> ''9.9.9.9:53'']"

definition ex_reloaded :: system where
  "ex_reloaded = reloaded (Reload ex_files (ex_reloader\<lparr>l_pool := y_pool ex_system\<rparr>)) ex_system"

lemma ex_system_reachable: "sys_reachable ex_system"
  unfolding ex_system_def ex_pool_def by (rule sys_reachable.start) simp_all

lemma ex_hup: "sys_step ex_system ex_reloaded"
  unfolding ex_reloaded_def by (rule sys_step.hup) (simp add: ex_system_def)

lemma ex_parsed: "parseResolvers ex_files ''r.txt'' [] False = [\<lparr>Addr = ''9.9.9.9:53'', URL = ''''\<rparr>]"
  by (simp add: ex_files_def parseResolvers_def scan_lines_def drop_last_empty_def maxToken_def TrimSuffix_def HasSuffix_def
      TrimSpace_plain plain_byte_def HasPrefix_def parseOneResolver_def)

lemma ex_replaced: "p_resolvers (y_pool ex_reloaded) = [\<lparr>Addr = ''9.9.9.9:53'', URL = ''''\<rparr>]"
  by (simp add: ex_reloaded_def reloaded_def with_pool_def Reload_def locked_def doReload_def ex_parsed ex_reloader_def
      NewResolverReloader_def ex_system_def NewUDPProxy_def UpdateResolvers_free Let_def)

theorem system_counters_exact_witness:
  "pool_owed (y_pool ex_reloaded) ex_r1 = of_nat (size (filter_mset (outstanding ex_r1) (y_workers ex_reloaded)))"
  using system_counters_exact [OF sys_reachable.step [OF ex_system_reachable ex_hup], of ex_r1] by simp


theorem replaced_list_ends_service_witness: "\<exists>k\<le>257. u_queryCount (y_udp ex_reloaded) = of_nat k"
proof -
  have "p_resolvers (y_pool ex_reloaded) \<noteq> p_resolvers (y_pool ex_system)"
    by (simp add: ex_replaced) (simp add: ex_system_def NewUDPProxy_def)
  moreover have "u_cache (y_udp ex_reloaded) = None" "u_queryCount (y_udp ex_reloaded) = 0"
    by (simp_all add: ex_reloaded_def reloaded_def with_pool_def ex_system_def NewUDPProxy_def)
  ultimately show ?thesis
    using replaced_list_ends_service [OF ex_system_reachable ex_hup, of ex_reloaded] by simp
qed

end
