(* ===== verification/Provenance.thy ===== *)
theory Provenance
  imports Composition
begin

text \<open>
  Where the answers of the program come from. A run of the whole program is taken together with what its workers hear
  from the network, and every answer a proxy sends is traced back to it, through the cache that all workers share.
\<close>

subsection \<open>What is heard\<close>

text \<open>A query, the resolver it was sent to, and the response that came back.\<close>

type_synonym hearing = "(bytes \<times> Resolver \<times> bytes) set"

fun heard :: "transport \<Rightarrow> pool \<Rightarrow> worker \<Rightarrow> hearing" where
  "heard net p (W_wait data r) = {(data, r, resp) | resp. SendQuery net data r p = Inr resp}"
| "heard net p (W_rewait data r) = {(data, r, resp) | resp. SendQuery net data r p = Inr resp}"
| "heard net p _ = {}"

text \<open>A step that is not a worker's: no answer moves, and the only new worker is one that has just got its query.\<close>

definition silent :: "system \<Rightarrow> system \<Rightarrow> bool" where
  "silent y y' \<longleftrightarrow> u_cache (y_udp y') = u_cache (y_udp y) \<and>
     u_replies (y_udp y') = u_replies (y_udp y) \<and> u_replies (y_tcp y') = u_replies (y_tcp y) \<and>
     (\<exists>data. set_mset (u_workers (y_udp y')) \<subseteq> insert (W_lookup data) (set_mset (u_workers (y_udp y))) \<and>
       set_mset (u_workers (y_tcp y')) \<subseteq> insert (W_lookup data) (set_mset (u_workers (y_tcp y))))"

text \<open>The runs, with one DNS library for all steps and a cache that starts empty.\<close>

inductive history :: "unpacker \<Rightarrow> system \<Rightarrow> hearing \<Rightarrow> bool" for unpack where
  start: "resolvers \<noteq> [] \<Longrightarrow> u = NewUDPProxy (NewResolverPool resolvers mode doh) (map_option NewDNSCache entries) \<Longrightarrow>
    history unpack \<lparr>y_udp = u, y_tcp = u, y_scan = as, y_phase = ph, y_reload = r\<rparr> {}"
| udp_work: "history unpack y H \<Longrightarrow> w \<in># u_workers (y_udp y) \<Longrightarrow>
    worker_step unpack now draws net lat w (y_udp y) = Some u \<Longrightarrow>
    history unpack (y\<lparr>y_udp := u\<rparr>) (H \<union> heard net (y_pool y) w)"
| tcp_work: "history unpack y H \<Longrightarrow> w \<in># u_workers (y_tcp y) \<Longrightarrow>
    worker_step unpack now draws net lat w (tcp_view y) = Some t \<Longrightarrow>
    history unpack (tcp_update t y) (H \<union> heard net (y_pool y) w)"
| other: "history unpack y H \<Longrightarrow> sys_step y y' \<Longrightarrow> silent y y' \<Longrightarrow> history unpack y' H"

text \<open>These rules cover every step of the program.\<close>

lemma sys_step_silent:
  assumes "sys_step y y'"
  shows "silent y y' \<or>
    (\<exists>unpack now draws net lat w. w \<in># u_workers (y_udp y) \<and> worker_step unpack now draws net lat w (y_udp y) = Some (y_udp y')) \<or>
    (\<exists>unpack now draws net lat w. w \<in># u_workers (y_tcp y) \<and> worker_step unpack now draws net lat w (tcp_view y) = Some (y_tcp y'))"
  using assms
proof (cases rule: sys_step_cases)
  case Proxy
  from Proxy(1) show ?thesis
  proof cases
    case (work w unpack now draws net lat)
    then show ?thesis by blast
  next
    case (spawn data)
    then show ?thesis using Proxy(2) by (auto simp: silent_def)
  qed (use Proxy(2) in \<open>auto simp: silent_def\<close>)
qed (auto simp: silent_def)

lemma history_reachable: "history unpack y H \<Longrightarrow> sys_reachable y"
proof (induction rule: history.induct)
  case (udp_work y H w now draws net lat u)
  then show ?case using sys_reachable.step [OF _ sys_step.proxy [OF udp_step.work]] by blast
next
  case (tcp_work y H w now draws net lat t)
  then show ?case using sys_reachable.step [OF _ sys_step.tcp_work] by blast
next
  case (other y H y')
  then show ?case using sys_reachable.step by blast
qed (rule sys_reachable.start)

subsection \<open>Known resolvers\<close>

lemma worker_step_known:
  assumes "worker_step unpack now draws net lat w u = Some u'" and "pool_ready (u_pool u)" and "uses w \<subseteq> pool_known (u_pool u)"
  shows "pool_known (u_pool u') = pool_known (u_pool u)"
  using assms(1,3)
  by (cases w) (auto simp: on_pool_Some dest: pool_ops_ready [OF assms(2)] split: option.splits prod.splits outcome.splits if_splits)

lemma installs_known: "installs p q \<Longrightarrow> p_mu p = Readers 0 \<Longrightarrow> pool_known p \<subseteq> pool_known q"
  by (auto simp: installs_def UpdateResolvers_free pool_known_def add_resolvers_stats)

lemma sys_step_known:
  assumes "sys_step y y'" and "sys_reachable y"
  shows "pool_known (y_pool y) \<subseteq> pool_known (y_pool y')"
proof (cases "p_mu (y_pool y) = Writer")
  case True
  then have "but_sent (y_pool y') = but_sent (y_pool y)" using sys_step_frozen [OF assms(1)] by (simp add: only_added_def)
  then show ?thesis using but_sentD(3) [of "y_pool y'" "y_pool y"] by (simp add: pool_known_def)
next
  case False
  then have acc: "accounts (y_pool y) (y_workers y)" and free: "p_mu (y_pool y) = Readers 0"
    using sys_reachable_inv [OF assms(2)] by (auto simp: sys_inv_def)
  note ready = accountsD(1) [OF acc] and known = accountsD(2) [OF acc]
  from assms(1) show ?thesis
  proof (cases rule: sys_step_cases)
    case Proxy
    from Proxy(1) show ?thesis
    proof cases
      case (work w unpack now draws net lat)
      then show ?thesis using worker_step_known [OF work(2) ready] known by simp
    next
      case (check order mkquery nets p)
      then show ?thesis using HealthCheck_ready [OF ready check(2,3)] by simp
    qed simp_all
  next
    case (Conn w unpack now draws net lat)
    then show ?thesis using worker_step_known [OF Conn(2)] ready known by simp
  next
    case (Pool p)
    then show ?thesis using installs_known free by simp
  next
    case (Callback p)
    then show ?thesis using free by (auto simp: SetOnResolverDown_def with_Lock_def pool_known_def)
  qed simp
qed

subsection \<open>Tracing answers back\<close>

text \<open>An answer to a query is what a resolver said to this very query, or what it said to one with the same key, with the
  transaction id of this one.\<close>

definition justified :: "unpacker \<Rightarrow> hearing \<Rightarrow> bytes \<Rightarrow> bytes \<Rightarrow> bool" where
  "justified unpack H q a \<longleftrightarrow> (\<exists>r. (q, r, a) \<in> H) \<or>
     (\<exists>q0 r a0. (q0, r, a0) \<in> H \<and> extractKey unpack q0 = extractKey unpack q \<and> extractKey unpack q \<noteq> None \<and> a = rewrite_id q a0)"

fun backed :: "unpacker \<Rightarrow> hearing \<Rightarrow> worker \<Rightarrow> bool" where
  "backed unpack H (W_answered q r a) = (\<exists>r. (q, r, a) \<in> H)"
| "backed unpack H (W_store q a) = (\<exists>r. (q, r, a) \<in> H)"
| "backed unpack H (W_write q a) = justified unpack H q a"
| "backed unpack H _ = True"

definition cache_backed :: "unpacker \<Rightarrow> hearing \<Rightarrow> DNSCache \<Rightarrow> bool" where
  "cache_backed unpack H c \<longleftrightarrow> cache_inv c \<and>
     (\<forall>k a t. stored c k = Some (a, t) \<longrightarrow> (\<exists>q r. (q, r, a) \<in> H \<and> extractKey unpack q = Some k))"

definition proxy_backed :: "unpacker \<Rightarrow> hearing \<Rightarrow> udp_proxy \<Rightarrow> bool" where
  "proxy_backed unpack H u \<longleftrightarrow> (\<forall>w \<in># u_workers u. backed unpack H w) \<and>
     (\<forall>(q, a) \<in> set (u_replies u). justified unpack H q a)"

abbreviation store_backed :: "unpacker \<Rightarrow> hearing \<Rightarrow> udp_proxy \<Rightarrow> bool" where
  "store_backed unpack H u \<equiv> \<forall>c. u_cache u = Some c \<longrightarrow> cache_backed unpack H c"

lemma justified_mono: "justified unpack H q a \<Longrightarrow> H \<subseteq> H' \<Longrightarrow> justified unpack H' q a"
  unfolding justified_def by blast

lemma backed_mono: "backed unpack H w \<Longrightarrow> H \<subseteq> H' \<Longrightarrow> backed unpack H' w"
  by (cases w) (auto intro: justified_mono)

lemma proxy_backed_mono: "proxy_backed unpack H u \<Longrightarrow> H \<subseteq> H' \<Longrightarrow> proxy_backed unpack H' u"
  by (fastforce simp: proxy_backed_def intro: backed_mono justified_mono)

lemma cache_backed_mono: "cache_backed unpack H c \<Longrightarrow> H \<subseteq> H' \<Longrightarrow> cache_backed unpack H' c"
  unfolding cache_backed_def by blast

lemma Get_backed:
  assumes "cache_backed unpack H c" and "Get unpack now q c = (res, c')"
  shows "cache_backed unpack H c'" and "res = Some a \<Longrightarrow> justified unpack H q a"
proof -
  have inv: "cache_inv c" using assms(1) by (simp add: cache_backed_def)
  have c': "c' = snd (Get unpack now q c)" and res: "res = fst (Get unpack now q c)" using assms(2) by simp_all
  show "cache_backed unpack H c'"
    using assms(1) cache.get_inv [OF inv] cache.get_keeps [OF inv]
    unfolding c' snd_Get cache_backed_def by (auto split: option.splits)
  show "justified unpack H q a" if hit: "res = Some a"
  proof -
    obtain k a0 where k: "extractKey unpack q = Some k" "fst (get_key k now c) = Some a0" "a = rewrite_id q a0"
      using hit unfolding res fst_Get_Some by blast
    then obtain t where "stored c k = Some (a0, t)" using cache.get_hit [OF inv] by blast
    with assms(1) k show ?thesis unfolding cache_backed_def justified_def by fastforce
  qed
qed

lemma Put_backed:
  assumes "cache_backed unpack H c" and "(q, r, a) \<in> H"
  shows "cache_backed unpack H (Put unpack now q a c)"
proof (cases "extractKey unpack q")
  case (Some k)
  have inv: "cache_inv c" using assms(1) by (simp add: cache_backed_def)
  have "cache_backed unpack H (put_key k a t c)" for t
    unfolding cache_backed_def
  proof (intro conjI allI impI)
    fix k' b t'
    assume s: "stored (put_key k a t c) k' = Some (b, t')"
    show "\<exists>q r. (q, r, b) \<in> H \<and> extractKey unpack q = Some k'"
    proof (cases "k' = k")
      case True
      with s cache.put_look [OF inv] Some assms(2) show ?thesis by fastforce
    next
      case False
      then show ?thesis using cache.put_keeps [OF inv False s] assms(1) by (simp add: cache_backed_def)
    qed
  qed (rule cache.put_inv [OF inv])
  then show ?thesis using Some assms(1) by (simp add: Put_def Let_def)
qed (use assms(1) in \<open>simp add: Put_def\<close>)

text \<open>A worker's step keeps everything backed, with what it hears.\<close>

lemma proxy_backed_goes:
  assumes "proxy_backed unpack H u" and "backed unpack H w'"
  shows "proxy_backed unpack H (goes w w' u)"
  using assms by (auto simp: proxy_backed_def dest: in_diffD)

lemma proxy_backed_leaves [simp]:
  "proxy_backed unpack H u \<Longrightarrow> proxy_backed unpack H (u\<lparr>u_workers := u_workers u - {#w#}\<rparr>)"
  by (auto simp: proxy_backed_def dest: in_diffD)

lemma proxy_backed_fields [simp]:
  "proxy_backed unpack H (u\<lparr>u_pool := p\<rparr>) = proxy_backed unpack H u"
  "proxy_backed unpack H (u\<lparr>u_cache := c\<rparr>) = proxy_backed unpack H u"
  "proxy_backed unpack H (u\<lparr>u_pool := p, u_workers := W\<rparr>) = proxy_backed unpack H (u\<lparr>u_workers := W\<rparr>)"
  "proxy_backed unpack H (u\<lparr>u_cache := c, u_workers := W\<rparr>) = proxy_backed unpack H (u\<lparr>u_workers := W\<rparr>)"
  by (simp_all add: proxy_backed_def)

lemma worker_step_backed:
  assumes "worker_step unpack now draws net lat w u = Some u'" and "w \<in># u_workers u"
    and "proxy_backed unpack H u" and "store_backed unpack H u"
  shows "proxy_backed unpack (H \<union> heard net (u_pool u) w) u' \<and> store_backed unpack (H \<union> heard net (u_pool u) w) u'"
proof -
  let ?H = "H \<union> heard net (u_pool u) w"
  have u: "proxy_backed unpack ?H u" using proxy_backed_mono [OF assms(3)] by simp
  have c: "store_backed unpack ?H u" using assms(4) cache_backed_mono by blast
  have w: "backed unpack ?H w" using u assms(2) by (simp add: proxy_backed_def)
  note go = proxy_backed_goes [OF u]
  show ?thesis
  proof (cases w)
    case (W_lookup q)
    show ?thesis
    proof (cases "u_cache u")
      case None
      with W_lookup assms(1) go [of "W_pick q" w] show ?thesis by auto
    next
      case (Some d)
      obtain res d' where g: "Get unpack now q d = (res, d')" by fastforce
      have d: "cache_backed unpack ?H d" using c Some by blast
      show ?thesis
        using W_lookup assms(1) Some g Get_backed [OF d g] go [of "W_pick q" w] go [of "W_write q (the res)" w]
        by (cases res) auto
    qed
  next
    case (W_write q a)
    then have "justified unpack ?H q a" using w by simp
    then have "proxy_backed unpack ?H (u\<lparr>u_workers := u_workers u - {#w#}, u_replies := u_replies u @ [(q, a)]\<rparr>)"
      using proxy_backed_leaves [OF u, of w] by (auto simp: proxy_backed_def)
    then show ?thesis using W_write assms(1) c by auto
  next
    case (W_store q a)
    from w W_store obtain r where r: "(q, r, a) \<in> ?H" by auto
    have "justified unpack ?H q a" using r by (auto simp: justified_def)
    moreover have "cache_backed unpack ?H (Put unpack now q a d)" if "u_cache u = Some d" for d
      using Put_backed [OF _ r] c that by blast
    ultimately show ?thesis using W_store assms(1) go [of "W_write q a" w] by auto
  next
    case (W_answered q r a)
    with w have "backed unpack ?H (W_store q a)" by simp
    from go [OF this, of w] show ?thesis using W_answered assms(1) c by (auto simp: on_pool_Some)
  next
    case (W_repick q r)
    have "backed unpack ?H (W_repicked q r')" for r' by simp
    from go [OF this] show ?thesis using W_repick assms(1) u c by (auto split: prod.splits outcome.splits if_splits)
  next
    case (W_refailed q r)
    with assms(1) u c show ?thesis by (auto split: prod.splits outcome.splits)
  qed (use assms(1) w u c in \<open>auto simp: on_pool_Some intro!: proxy_backed_goes split: sum.splits\<close>)
qed

subsection \<open>The invariant\<close>

definition history_inv :: "unpacker \<Rightarrow> system \<Rightarrow> hearing \<Rightarrow> bool" where
  "history_inv unpack y H \<longleftrightarrow> proxy_backed unpack H (y_udp y) \<and> proxy_backed unpack H (y_tcp y) \<and>
     store_backed unpack H (y_udp y) \<and> (\<forall>(q, r, a) \<in> H. r \<in> pool_known (y_pool y))"

lemma tcp_view_backed [simp]: "proxy_backed unpack H (tcp_view y) = proxy_backed unpack H (y_tcp y)"
  by (simp add: proxy_backed_def) (simp add: tcp_view_def)

lemma heard_uses: "(q, r, a) \<in> heard net p w \<Longrightarrow> r \<in> uses w"
  by (cases w) auto

lemma known_stays:
  assumes "sys_step y y'" and "sys_reachable y" and "w \<in># y_workers y" and "\<forall>(q, r, a) \<in> H. r \<in> pool_known (y_pool y)"
  shows "\<forall>(q, r, a) \<in> H \<union> heard net p w. r \<in> pool_known (y_pool y')"
proof -
  have "pool_known (unlocked (y_pool y)) = pool_known (y_pool y)" by (simp add: unlocked_def pool_known_def)
  moreover have "accounts (unlocked (y_pool y)) (y_workers y)" using sys_reachable_inv [OF assms(2)] by (simp add: sys_inv_def)
  ultimately have "uses w \<subseteq> pool_known (y_pool y)" using accountsD(2) assms(3) by metis
  then show ?thesis using sys_step_known [OF assms(1,2)] assms(4) heard_uses by blast
qed

lemma history_invariant: "history unpack y H \<Longrightarrow> history_inv unpack y H"
proof (induction rule: history.induct)
  case (start resolvers u mode doh entries as ph r)
  then show ?case
    by (auto simp: history_inv_def proxy_backed_def NewUDPProxy_def cache_backed_def NewDNSCache_inv)
      (simp add: stored_def NewDNSCache_def)
next
  case (udp_work y H w now draws net lat u)
  then have inv: "history_inv unpack y H" and known: "\<forall>(q, r, a) \<in> H. r \<in> pool_known (y_pool y)"
    by (simp_all add: history_inv_def)
  have "sys_step y (y\<lparr>y_udp := u\<rparr>)" using sys_step.proxy udp_step.work udp_work(2,3) by blast
  from known_stays [OF this history_reachable [OF udp_work(1)] _ known, of w net "y_pool y"] udp_work(2)
  have "\<forall>(q, r, a) \<in> H \<union> heard net (y_pool y) w. r \<in> pool_known (u_pool u)" by simp
  moreover have "proxy_backed unpack (H \<union> heard net (y_pool y) w) (y_tcp y)"
    using inv proxy_backed_mono by (auto simp: history_inv_def)
  ultimately show ?case
    using worker_step_backed [OF udp_work(3,2)] inv by (simp add: history_inv_def)
next
  case (tcp_work y H w now draws net lat t)
  then have inv: "history_inv unpack y H" and known: "\<forall>(q, r, a) \<in> H. r \<in> pool_known (y_pool y)"
    by (simp_all add: history_inv_def)
  have "sys_step y (tcp_update t y)" using sys_step.tcp_work tcp_work(2,3) by blast
  from known_stays [OF this history_reachable [OF tcp_work(1)] _ known, of w net "y_pool y"] tcp_work(2)
  have "\<forall>(q, r, a) \<in> H \<union> heard net (y_pool y) w. r \<in> pool_known (u_pool t)" by (simp add: tcp_update_def)
  moreover have "proxy_backed unpack (H \<union> heard net (y_pool y) w) (y_udp y)"
    using inv proxy_backed_mono by (auto simp: history_inv_def)
  ultimately show ?case
    using worker_step_backed [OF tcp_work(3)] tcp_work(2) inv by (simp add: history_inv_def tcp_update_def)
next
  case (other y H y')
  have "\<forall>(q, r, a) \<in> H. r \<in> pool_known (y_pool y')"
    using other(4) sys_step_known [OF other(2) history_reachable [OF other(1)]] by (auto simp: history_inv_def)
  with other(3,4) show ?case by (fastforce simp: history_inv_def silent_def proxy_backed_def)
qed

text \<open>C5: no answer is invented and none is mixed up: whatever the workers of both proxies, the health checks, scans and reloads do, in whatever
  order, an answer that a client gets is what a resolver of the pool answered to this very query, or what one answered to an
  earlier query for the same name, type and class, with nothing but the transaction id changed.\<close>

theorem answers_come_from_resolvers:
  assumes "history unpack y H" and "(q, a) \<in> set (u_replies (y_udp y)) \<union> set (u_replies (y_tcp y))"
  shows "\<exists>q0 r a0. (q0, r, a0) \<in> H \<and> r \<in> pool_known (y_pool y) \<and>
    (q0 = q \<and> a0 = a \<or>
     extractKey unpack q0 = extractKey unpack q \<and> extractKey unpack q \<noteq> None \<and> a = rewrite_id q a0)"
proof -
  note inv = history_invariant [OF assms(1)]
  then have "justified unpack H q a" using assms(2) by (auto simp: history_inv_def proxy_backed_def)
  then show ?thesis using inv unfolding justified_def history_inv_def by blast
qed

subsection \<open>A run that answers\<close>

text \<open>A query that reaches the TCP proxy is carried through its stages, with a network that answers it.\<close>

definition ex_running :: "system \<Rightarrow> worker \<Rightarrow> bool" where
  "ex_running y w \<longleftrightarrow> (\<exists>H. history ex_unpack y H) \<and> u_workers (y_tcp y) = {#w#} \<and> u_cache (y_udp y) = None \<and>
     p_mu (y_pool y) \<noteq> Writer"

lemma ex_answer: "SendQuery (ex_net [9]) q r p = Inr [9]"
  by (simp add: SendQuery_def sendQueryUDP_def sendQueryDoH_def ex_net_def dnsBufferSize_def)

lemma ex_step:
  assumes "ex_running y w"
  obtains t H where "worker_step ex_unpack 0 id (ex_net [9]) 0 w (tcp_view y) = Some t"
    and "history ex_unpack (tcp_update t y) H" and "p_mu (u_pool t) \<noteq> Writer"
proof -
  from assms obtain H where y: "history ex_unpack y H" "w \<in># u_workers (y_tcp y)" "p_mu (y_pool y) \<noteq> Writer"
    by (auto simp: ex_running_def)
  note reach = history_reachable [OF y(1)]
  obtain t where t: "worker_step ex_unpack 0 id (ex_net [9]) 0 w (tcp_view y) = Some t"
    using system_can_step(2) [OF reach y(3,2)] by blast
  have "accounts (y_pool y) (u_workers (y_tcp y) + u_workers (y_udp y))"
    using sys_reachable_inv [OF reach] y(3) by (auto simp: sys_inv_def add.commute)
  with worker_step_accounts [OF _ _ t] y(2) have "accounts (u_pool t) (u_workers t + u_workers (y_udp y))" by simp
  then have "p_mu (u_pool t) \<noteq> Writer" using accountsD(1) by (fastforce simp: pool_ready_def)
  with that t history.tcp_work [OF y(1,2) t] show thesis by blast
qed

lemma ex_runningD:
  "ex_running y w \<Longrightarrow> u_cache (y_udp y) = None" "ex_running y w \<Longrightarrow> u_workers (y_tcp y) = {#w#}"
  by (simp_all add: ex_running_def)

lemma ex_next:
  assumes "ex_running y w"
    and "\<And>t. worker_step ex_unpack 0 id (ex_net [9]) 0 w (tcp_view y) = Some t \<Longrightarrow>
      u_cache t = None \<and> (\<exists>w'. u_workers t = {#w'#} \<and> P w')"
  shows "\<exists>y' w'. ex_running y' w' \<and> P w'"
proof -
  obtain t H where t: "worker_step ex_unpack 0 id (ex_net [9]) 0 w (tcp_view y) = Some t"
    "history ex_unpack (tcp_update t y) H" "p_mu (u_pool t) \<noteq> Writer" using ex_step [OF assms(1)] .
  then obtain w' where "u_cache t = None" "u_workers t = {#w'#}" "P w'" using assms(2) by blast
  with t have "ex_running (tcp_update t y) w' \<and> P w'" by (auto simp: ex_running_def tcp_update_def)
  then show ?thesis by blast
qed

lemma ex_stages:
  shows "ex_running y (W_lookup q) \<Longrightarrow> \<exists>y w. ex_running y w \<and> (w = W_pick q)"
    and "ex_running y (W_pick q) \<Longrightarrow> \<exists>y w. ex_running y w \<and> (\<exists>r. w = W_picked q r)"
    and "ex_running y (W_picked q r) \<Longrightarrow> \<exists>y w. ex_running y w \<and> (w = W_sending q r)"
    and "ex_running y (W_sending q r) \<Longrightarrow> \<exists>y w. ex_running y w \<and> (w = W_wait q r)"
    and "ex_running y (W_wait q r) \<Longrightarrow> \<exists>y w. ex_running y w \<and> (w = W_answered q r [9])"
    and "ex_running y (W_answered q r [9]) \<Longrightarrow> \<exists>y w. ex_running y w \<and> (w = W_store q [9])"
    and "ex_running y (W_store q [9]) \<Longrightarrow> \<exists>y w. ex_running y w \<and> (w = W_write q [9])"
proof -
  show "\<exists>y w. ex_running y w \<and> (w = W_pick q)" if run: "ex_running y (W_lookup q)"
    by (rule ex_next [OF run]) (use ex_runningD [OF run] in \<open>auto simp: on_pool_Some ex_answer\<close>)
  show "\<exists>y w. ex_running y w \<and> (\<exists>r. w = W_picked q r)" if run: "ex_running y (W_pick q)"
    by (rule ex_next [OF run]) (use ex_runningD [OF run] in \<open>auto simp: on_pool_Some ex_answer\<close>)
  show "\<exists>y w. ex_running y w \<and> (w = W_sending q r)" if run: "ex_running y (W_picked q r)"
    by (rule ex_next [OF run]) (use ex_runningD [OF run] in \<open>auto simp: on_pool_Some ex_answer\<close>)
  show "\<exists>y w. ex_running y w \<and> (w = W_wait q r)" if run: "ex_running y (W_sending q r)"
    by (rule ex_next [OF run]) (use ex_runningD [OF run] in \<open>auto simp: on_pool_Some ex_answer\<close>)
  show "\<exists>y w. ex_running y w \<and> (w = W_answered q r [9])" if run: "ex_running y (W_wait q r)"
    by (rule ex_next [OF run]) (use ex_runningD [OF run] in \<open>auto simp: on_pool_Some ex_answer\<close>)
  show "\<exists>y w. ex_running y w \<and> (w = W_store q [9])" if run: "ex_running y (W_answered q r [9])"
    by (rule ex_next [OF run]) (use ex_runningD [OF run] in \<open>auto simp: on_pool_Some ex_answer\<close>)
  show "\<exists>y w. ex_running y w \<and> (w = W_write q [9])" if run: "ex_running y (W_store q [9])"
    by (rule ex_next [OF run]) (use ex_runningD [OF run] in \<open>auto simp: on_pool_Some ex_answer\<close>)
qed

theorem answers_come_from_resolvers_witness:
  "\<exists>y H. history ex_unpack y H \<and> ([1], [9]) \<in> set (u_replies (y_tcp y)) \<and> (\<exists>q0 r a0. (q0, r, a0) \<in> H \<and> r \<in> pool_known (y_pool y))"
proof -
  let ?y = "ex_system\<lparr>y_tcp := (y_tcp ex_system)\<lparr>u_workers := {#W_lookup [1]#}\<rparr>\<rparr>"
  have "history ex_unpack ex_system {}"
    unfolding ex_system_def ex_pool_def by (rule history.start [where entries = None]) simp_all
  moreover have "sys_step ex_system ?y"
    using sys_step.tcp_query [of ex_system "[1]"] by (simp add: ex_system_def NewUDPProxy_def maxWorkers_def dnsBufferSize_def)
  moreover have "silent ex_system ?y" by (auto simp: silent_def ex_system_def NewUDPProxy_def)
  ultimately have "history ex_unpack ?y {}" by (rule history.other)
  then have "ex_running ?y (W_lookup [1])" by (auto simp: ex_running_def ex_system_def NewUDPProxy_def)
  then obtain y r where "ex_running y (W_picked [1] r)" using ex_stages(1,2) by blast
  then obtain y where y: "ex_running y (W_write [1] [9])" using ex_stages(3-7) by blast
  obtain t H where "worker_step ex_unpack 0 id (ex_net [9]) 0 (W_write [1] [9]) (tcp_view y) = Some t"
    "history ex_unpack (tcp_update t y) H" using ex_step [OF y] .
  then have h: "history ex_unpack (tcp_update t y) H" "([1], [9]) \<in> set (u_replies (y_tcp (tcp_update t y)))"
    by (auto simp: tcp_update_def)
  from answers_come_from_resolvers [OF h(1), of "[1]" "[9]"] h show ?thesis by blast
qed

end
