(* ===== verification/Listener.thy ===== *)
theory Listener
  imports Workers
begin

text \<open>
  \<open>proxy.go\<close>, the listening sides: binding with retries, the receive loops of \<open>UDPProxy.Start\<close> and
  \<open>TCPProxy.Start\<close> and the two \<open>Stop\<close> methods, as one step per operation on the sockets, the \<open>done\<close>
  channel and the semaphore. A \<open>Stop\<close> may come between any two steps of the loop, and workers finish
  at any time. What a worker does with its job is in \<open>Proxy\<close> and \<open>Workers\<close>.
\<close>

subsection \<open>State\<close>

text \<open>
  Sockets are numbered in the order they are opened; \<open>v_conn\<close> is \<open>u.conn\<close> (\<open>t.listener\<close>), \<open>v_open\<close> are
  the sockets not closed yet. A job is what the loop gives to a worker: for UDP the socket to answer on and the
  datagram, for TCP the accepted connection.
\<close>

datatype 'j pc =
    P_resolve
  | P_bind
  | P_listen
  | P_bound nat
  | P_poll
  | P_read
  | P_failed goerr
  | P_got 'j
  | P_exit "goerr option"

record 'j server =
  v_pc :: "'j pc"
  v_done :: bool
  v_conn :: "nat option"
  v_open :: "nat set"
  v_next :: nat
  v_jobs :: "'j multiset"
  v_count :: uint64

definition new_server :: "'j pc \<Rightarrow> 'j server" where
  "new_server pc = \<lparr>v_pc = pc, v_done = False, v_conn = None, v_open = {}, v_next = 0, v_jobs = {#}, v_count = 0\<rparr>"

text \<open>What the network answers to the call a step makes.\<close>

datatype 'd answer = Ok | Fails goerr | Got 'd

definition ErrClosed :: goerr where
  "ErrClosed = \<lparr>err_msg = ''use of closed network connection'', err_Timeout = Some False\<rparr>"

text \<open>A call on a closed socket fails with \<open>net.ErrClosed\<close>.\<close>

definition on_socket :: "'d answer \<Rightarrow> 'j server \<Rightarrow> 'd answer" where
  "on_socket ans v = (case v_conn v of Some c \<Rightarrow> if c \<in> v_open v then ans else Fails ErrClosed | None \<Rightarrow> Fails ErrClosed)"

definition is_timeout :: "goerr \<Rightarrow> bool" where
  "is_timeout e \<longleftrightarrow> err_Timeout e = Some True"

subsection \<open>UDP\<close>

text \<open>
  \<open>None\<close> is a loop that has ended, waits for the network (\<open>Ok\<close> while it reads: nothing came yet, at most for the second
  the deadline allows) or for a slot of the semaphore. After a socket error the socket is closed and bound again.
\<close>

fun udp_loop :: "bytes answer \<Rightarrow> (nat \<times> bytes) pc \<Rightarrow> (nat \<times> bytes) server \<Rightarrow> (nat \<times> bytes) server option" where
  "udp_loop ans P_resolve v =
     Some (v\<lparr>v_pc := (case ans of Fails e \<Rightarrow> P_exit (Some e) | _ \<Rightarrow> P_bind)\<rparr>)"
| "udp_loop ans P_bind v =
     Some (v\<lparr>v_pc := (if v_done v then P_exit (Some ErrClosed) else P_listen)\<rparr>)"
| "udp_loop ans P_listen v =
     Some (case ans of Fails e \<Rightarrow> v\<lparr>v_pc := P_bind\<rparr>
           | _ \<Rightarrow> v\<lparr>v_open := insert (v_next v) (v_open v), v_next := Suc (v_next v), v_pc := P_bound (v_next v)\<rparr>)"
| "udp_loop ans (P_bound c) v = Some (v\<lparr>v_conn := Some c, v_pc := P_poll\<rparr>)"
| "udp_loop ans P_poll v = Some (v\<lparr>v_pc := (if v_done v then P_exit None else P_read)\<rparr>)"
| "udp_loop ans P_read v =
     (case on_socket ans v of
        Got dgram \<Rightarrow> Some (v\<lparr>v_count := v_count v + 1, v_pc := P_got (the (v_conn v), take dnsBufferSize dgram)\<rparr>)
      | Fails e \<Rightarrow> Some (v\<lparr>v_pc := (if is_timeout e then P_poll else P_failed e)\<rparr>)
      | Ok \<Rightarrow> None)"
| "udp_loop ans (P_failed e) v =
     Some (if v_done v then v\<lparr>v_pc := P_exit None\<rparr>
           else v\<lparr>v_open := v_open v - set_option (v_conn v), v_pc := P_resolve\<rparr>)"
| "udp_loop ans (P_got j) v =
     (if size (v_jobs v) < maxWorkers then Some (v\<lparr>v_jobs := add_mset j (v_jobs v), v_pc := P_poll\<rparr>) else None)"
| "udp_loop ans (P_exit r) v = None"

subsection \<open>TCP\<close>

text \<open>Nothing is resolved before the bind, nothing is counted, and an accept error ends the loop.\<close>

fun tcp_loop :: "nat answer \<Rightarrow> nat pc \<Rightarrow> nat server \<Rightarrow> nat server option" where
  "tcp_loop ans P_bind v =
     Some (v\<lparr>v_pc := (if v_done v then P_exit (Some ErrClosed) else P_listen)\<rparr>)"
| "tcp_loop ans P_listen v =
     Some (case ans of Fails e \<Rightarrow> v\<lparr>v_pc := P_bind\<rparr>
           | _ \<Rightarrow> v\<lparr>v_open := insert (v_next v) (v_open v), v_next := Suc (v_next v), v_pc := P_bound (v_next v)\<rparr>)"
| "tcp_loop ans (P_bound c) v = Some (v\<lparr>v_conn := Some c, v_pc := P_poll\<rparr>)"
| "tcp_loop ans P_poll v = Some (v\<lparr>v_pc := (if v_done v then P_exit None else P_read)\<rparr>)"
| "tcp_loop ans P_read v =
     (case on_socket ans v of
        Got conn \<Rightarrow> Some (v\<lparr>v_pc := P_got conn\<rparr>)
      | Fails e \<Rightarrow> Some (v\<lparr>v_pc := (if is_timeout e then P_poll else P_failed e)\<rparr>)
      | Ok \<Rightarrow> None)"
| "tcp_loop ans (P_failed e) v = Some (v\<lparr>v_pc := P_exit (if v_done v then None else Some e)\<rparr>)"
| "tcp_loop ans (P_got j) v =
     (if size (v_jobs v) < maxWorkers then Some (v\<lparr>v_jobs := add_mset j (v_jobs v), v_pc := P_poll\<rparr>) else None)"
| "tcp_loop ans P_resolve v = None"
| "tcp_loop ans (P_exit r) v = None"

subsection \<open>Stopping\<close>

text \<open>\<open>close(done)\<close> and the close of the current socket, if there is one; a second call would panic.\<close>

definition Stop_server :: "'j server \<Rightarrow> 'j server outcome" where
  "Stop_server v =
     (if v_done v then Panic
      else Done (v\<lparr>v_done := True, v_open := v_open v - set_option (v_conn v)\<rparr>))"

inductive serve :: "('d answer \<Rightarrow> 'j pc \<Rightarrow> 'j server \<Rightarrow> 'j server option) \<Rightarrow> 'j server \<Rightarrow> 'j server \<Rightarrow> bool"
  for loop :: "'d answer \<Rightarrow> 'j pc \<Rightarrow> 'j server \<Rightarrow> 'j server option" where
  turn: "loop ans (v_pc v) v = Some v' \<Longrightarrow> serve loop v v'"
| finish: "j \<in># v_jobs v \<Longrightarrow> serve loop v (v\<lparr>v_jobs := v_jobs v - {#j#}\<rparr>)"
| stop: "Stop_server v = Done v' \<Longrightarrow> serve loop v v'"

subsection \<open>Binding, read as the loop it is\<close>

text \<open>
  \<open>bindWithRetry\<close> alone: \<open>stopped k\<close> is what its \<open>k\<close>-th look at the channel finds, \<open>listen k\<close> how the attempt
  after it turns out. It need not end.
\<close>

partial_function (option) bindWithRetry :: "(nat \<Rightarrow> bool) \<Rightarrow> (nat \<Rightarrow> goerr + 'c) \<Rightarrow> nat \<Rightarrow> (goerr + 'c) option" where
  "bindWithRetry stopped listen k =
     (if stopped k then Some (Inl ErrClosed)
      else case listen k of Inr c \<Rightarrow> Some (Inr c) | Inl e \<Rightarrow> bindWithRetry stopped listen (Suc k))"

text \<open>The UDP side resolves its address first, once.\<close>

definition udp_bindWithRetry :: "goerr option \<Rightarrow> (nat \<Rightarrow> bool) \<Rightarrow> (nat \<Rightarrow> goerr + 'c) \<Rightarrow> (goerr + 'c) option" where
  "udp_bindWithRetry resolved stopped listen =
     (case resolved of Some e \<Rightarrow> Some (Inl e) | None \<Rightarrow> bindWithRetry stopped listen 0)"

definition bind_ends :: "(nat \<Rightarrow> bool) \<Rightarrow> (nat \<Rightarrow> goerr + 'c) \<Rightarrow> nat \<Rightarrow> bool" where
  "bind_ends stopped listen n \<longleftrightarrow> stopped n \<or> (\<exists>c. listen n = Inr c)"

lemma bind_retries:
  assumes "k \<le> n" and "\<And>i. k \<le> i \<Longrightarrow> i < n \<Longrightarrow> \<not> bind_ends stopped listen i"
  shows "bindWithRetry stopped listen k = bindWithRetry stopped listen n"
  using assms
proof (induction "n - k" arbitrary: k)
  case (Suc m)
  then have "\<not> bind_ends stopped listen k" by simp
  then obtain e where "\<not> stopped k" "listen k = Inl e" by (cases "listen k") (auto simp: bind_ends_def)
  then have "bindWithRetry stopped listen k = bindWithRetry stopped listen (Suc k)"
    by (subst bindWithRetry.simps) simp
  also have "\<dots> = bindWithRetry stopped listen n" using Suc by (intro Suc.hyps(1)) auto
  finally show ?case .
qed simp

lemma bind_returns_then:
  assumes "bindWithRetry stopped listen k = Some r"
  shows "\<exists>n\<ge>k. bind_ends stopped listen n"
proof (rule bindWithRetry.raw_induct [where P = "\<lambda>stopped listen k r. \<exists>n\<ge>k. bind_ends stopped listen n", OF _ assms])
  fix rec :: "(nat \<Rightarrow> bool) \<Rightarrow> (nat \<Rightarrow> goerr + 'c) \<Rightarrow> nat \<Rightarrow> (goerr + 'c) option"
    and stopped :: "nat \<Rightarrow> bool" and listen :: "nat \<Rightarrow> goerr + 'c" and k r
  assume IH: "\<And>stopped listen k r. rec stopped listen k = Some r \<Longrightarrow> \<exists>n\<ge>k. bind_ends stopped listen n"
    and round: "(if stopped k then Some (Inl ErrClosed)
      else case listen k of Inr c \<Rightarrow> Some (Inr c) | Inl e \<Rightarrow> rec stopped listen (Suc k)) = Some r"
  show "\<exists>n\<ge>k. bind_ends stopped listen n"
  proof (cases "bind_ends stopped listen k")
    case False
    then obtain e where "\<not> stopped k" "listen k = Inl e" by (cases "listen k") (auto simp: bind_ends_def)
    with round IH have "\<exists>n\<ge>Suc k. bind_ends stopped listen n" by simp
    then show ?thesis using Suc_leD by blast
  qed blast
qed

text \<open>C30: binding is tried until it succeeds or the proxy is stopped: \<open>bindWithRetry\<close> of either server returns exactly when one of the two
  ever happens, and returns what the first such round gives: \<open>net.ErrClosed\<close> when it finds the proxy stopped, else the
  socket. When neither happens it never returns.\<close>

theorem bindWithRetry_returns:
  "bindWithRetry stopped listen 0 =
     (if \<exists>n. bind_ends stopped listen n
      then (let n = LEAST n. bind_ends stopped listen n in Some (if stopped n then Inl ErrClosed else listen n))
      else None)"
proof (cases "\<exists>n. bind_ends stopped listen n")
  case True
  define n where "n = (LEAST n. bind_ends stopped listen n)"
  have ends: "bind_ends stopped listen n" using True unfolding n_def by (rule LeastI_ex)
  have "bindWithRetry stopped listen 0 = bindWithRetry stopped listen n"
    by (rule bind_retries) (auto simp: n_def dest: not_less_Least)
  also have "\<dots> = Some (if stopped n then Inl ErrClosed else listen n)"
    using ends by (subst bindWithRetry.simps) (auto simp: bind_ends_def)
  finally show ?thesis using True by (simp add: n_def Let_def)
next
  case False
  then have "bindWithRetry stopped listen 0 = None"
    using bind_returns_then [of stopped listen 0] by (cases "bindWithRetry stopped listen 0") auto
  with False show ?thesis by simp
qed

end
