(* ===== verification/ListenerSpec.thy ===== *)
theory ListenerSpec
  imports Listener
begin

text \<open>
  The sockets and the ends of the two receive loops. The contract \<open>receive_loop\<close> is what the loop of a server
  keeps at each step; from it follow the invariant of every run and what \<open>Stop\<close> leaves, for both servers.
\<close>

subsection \<open>The contract of a loop\<close>

text \<open>
  While it binds the server holds no socket, a bound one is not the current one yet, and afterwards it
  holds at most its current one, for certain until it is stopped.
\<close>

definition sockets_ok :: "'j server \<Rightarrow> bool" where
  "sockets_ok v \<longleftrightarrow>
     (\<forall>c \<in> v_open v \<union> set_option (v_conn v). c < v_next v) \<and>
     (case v_pc v of P_resolve \<Rightarrow> v_open v = {} | P_bind \<Rightarrow> v_open v = {} | P_listen \<Rightarrow> v_open v = {}
      | P_bound c \<Rightarrow> v_open v = {c} \<and> v_conn v \<noteq> Some c \<and> c < v_next v
      | P_exit r \<Rightarrow> v_open v \<subseteq> set_option (v_conn v)
      | _ \<Rightarrow> v_conn v \<noteq> None \<and> v_open v \<subseteq> set_option (v_conn v) \<and>
            (v_done v \<or> v_open v = set_option (v_conn v)))"

definition server_inv :: "'j server \<Rightarrow> bool" where
  "server_inv v \<longleftrightarrow> sockets_ok v \<and> size (v_jobs v) \<le> maxWorkers"

text \<open>The number of steps a stopped loop may still make.\<close>

fun pc_rank :: "'j pc \<Rightarrow> nat" where
  "pc_rank (P_exit r) = 0"
| "pc_rank P_bind = 1" | "pc_rank P_poll = 1" | "pc_rank (P_failed e) = 1"
| "pc_rank P_resolve = 2" | "pc_rank (P_bound c) = 2" | "pc_rank (P_got j) = 2"
| "pc_rank P_listen = 3" | "pc_rank P_read = 3"

fun binding :: "'j pc \<Rightarrow> bool" where
  "binding P_listen = True" | "binding (P_bound c) = True" | "binding _ = False"

fun turns :: "('d answer \<Rightarrow> 'j pc \<Rightarrow> 'j server \<Rightarrow> 'j server option) \<Rightarrow> 'd answer list \<Rightarrow> 'j server \<Rightarrow> 'j server option" where
  "turns loop [] v = Some v"
| "turns loop (ans # answers) v = Option.bind (loop ans (v_pc v) v) (turns loop answers)"

locale receive_loop =
  fixes loop :: "'d answer \<Rightarrow> 'j pc \<Rightarrow> 'j server \<Rightarrow> 'j server option"
  assumes loop_inv: "loop ans (v_pc v) v = Some v' \<Longrightarrow> server_inv v \<Longrightarrow> server_inv v'"
    and loop_stopped: "loop ans (v_pc v) v = Some v' \<Longrightarrow> v_done v \<Longrightarrow>
      v_done v' \<and> pc_rank (v_pc v') < pc_rank (v_pc v)"
    and loop_closed: "loop ans (v_pc v) v = Some v' \<Longrightarrow> v_done v \<Longrightarrow> \<not> binding (v_pc v) \<Longrightarrow> v_open v = {} \<Longrightarrow>
      \<not> binding (v_pc v') \<and> v_open v' = {}"
begin

lemma serve_inv: "serve loop v v' \<Longrightarrow> server_inv v \<Longrightarrow> server_inv v'"
proof (induction rule: serve.induct)
  case (turn ans v v')
  then show ?case by (rule loop_inv)
next
  case (finish j v)
  then show ?case by (cases "v_pc v") (auto simp: server_inv_def sockets_ok_def size_Diff_singleton)
next
  case (stop v v')
  then show ?case by (cases "v_pc v") (auto simp: server_inv_def sockets_ok_def Stop_server_def split: if_splits)
qed

lemma run_inv: "(serve loop)\<^sup>*\<^sup>* v v' \<Longrightarrow> server_inv v \<Longrightarrow> server_inv v'"
  by (induction rule: rtranclp_induct) (blast intro: serve_inv)+

lemma serve_closed:
  "serve loop v v' \<Longrightarrow> v_done v \<and> \<not> binding (v_pc v) \<and> v_open v = {} \<Longrightarrow>
    v_done v' \<and> \<not> binding (v_pc v') \<and> v_open v' = {}"
proof (induction rule: serve.induct)
  case (turn ans v v')
  then show ?case using loop_stopped loop_closed by blast
qed (auto simp: Stop_server_def)

lemma run_closed:
  "(serve loop)\<^sup>*\<^sup>* v v' \<Longrightarrow> v_done v \<and> \<not> binding (v_pc v) \<and> v_open v = {} \<Longrightarrow>
    v_done v' \<and> \<not> binding (v_pc v') \<and> v_open v' = {}"
  by (induction rule: rtranclp_induct) (blast dest: serve_closed)+

lemma Stop_then_closed:
  assumes "server_inv v" and "\<not> binding (v_pc v)" and "Stop_server v = Done v1" and "(serve loop)\<^sup>*\<^sup>* v1 v2"
  shows "v_open v2 = {}"
proof -
  have "v_open v \<subseteq> set_option (v_conn v)"
    using assms(1,2) by (cases "v_pc v") (auto simp: server_inv_def sockets_ok_def)
  with assms(2,3) have "v_done v1 \<and> \<not> binding (v_pc v1) \<and> v_open v1 = {}"
    by (auto simp: Stop_server_def split: if_splits)
  with assms(4) show ?thesis using run_closed by blast
qed


lemma turns_bounded:
  "turns loop answers v = Some v' \<Longrightarrow> v_done v \<Longrightarrow> length answers + pc_rank (v_pc v') \<le> pc_rank (v_pc v)"
proof (induction answers arbitrary: v)
  case (Cons ans answers)
  then obtain v1 where v1: "loop ans (v_pc v) v = Some v1" "turns loop answers v1 = Some v'"
    by (auto split: Option.bind_splits)
  with Cons.prems(2) have "v_done v1" "pc_rank (v_pc v1) < pc_rank (v_pc v)" using loop_stopped by blast+
  with Cons.IH [OF v1(2)] show ?case by simp
qed simp

end

lemma turns_serve: "turns loop answers v = Some v' \<Longrightarrow> (serve loop)\<^sup>*\<^sup>* v v'"
proof (induction answers arbitrary: v)
  case (Cons ans answers)
  then obtain v1 where "loop ans (v_pc v) v = Some v1" "turns loop answers v1 = Some v'"
    by (auto split: Option.bind_splits)
  with Cons.IH serve.turn show ?case by (metis converse_rtranclp_into_rtranclp)
qed simp

subsection \<open>Both loops keep the contract\<close>

lemmas server_simps = server_inv_def sockets_ok_def on_socket_def

interpretation udp: receive_loop udp_loop
proof unfold_locales
  fix ans and v v' :: "(nat \<times> bytes) server"
  assume step: "udp_loop ans (v_pc v) v = Some v'"
  show "server_inv v'" if "server_inv v"
    using step that
    by (cases "v_pc v") (auto simp: server_simps split: answer.splits if_splits option.splits)
  show "v_done v' \<and> pc_rank (v_pc v') < pc_rank (v_pc v)" if "v_done v"
    using step that by (cases "v_pc v") (auto split: answer.splits if_splits)
  show "\<not> binding (v_pc v') \<and> v_open v' = {}" if "v_done v" "\<not> binding (v_pc v)" "v_open v = {}"
    using step that by (cases "v_pc v") (auto split: answer.splits if_splits)
qed

interpretation tcp: receive_loop tcp_loop
proof unfold_locales
  fix ans and v v' :: "nat server"
  assume step: "tcp_loop ans (v_pc v) v = Some v'"
  show "server_inv v'" if "server_inv v"
    using step that
    by (cases "v_pc v") (auto simp: server_simps split: answer.splits if_splits option.splits)
  show "v_done v' \<and> pc_rank (v_pc v') < pc_rank (v_pc v)" if "v_done v"
    using step that by (cases "v_pc v") (auto split: answer.splits if_splits)
  show "\<not> binding (v_pc v') \<and> v_open v' = {}" if "v_done v" "\<not> binding (v_pc v)" "v_open v = {}"
    using step that by (cases "v_pc v") (auto split: answer.splits if_splits)
qed

lemma new_server_inv: "pc = P_resolve \<or> pc = P_bind \<Longrightarrow> server_inv (new_server pc)"
  by (auto simp: server_inv_def sockets_ok_def new_server_def)

lemma server_inv_bounds:
  assumes "server_inv v"
  shows "card (v_open v) \<le> 1 \<and> size (v_jobs v) \<le> 256 \<and>
    (v_pc v = P_read \<and> \<not> v_done v \<longrightarrow> v_conn v \<noteq> None \<and> v_open v = set_option (v_conn v))"
proof -
  have "\<exists>c. v_open v \<subseteq> {c}"
    using assms by (cases "v_pc v"; cases "v_conn v") (auto simp: server_inv_def sockets_ok_def)
  then obtain c where "v_open v \<subseteq> {c}" by blast
  then have "card (v_open v) \<le> 1" using card_mono [of "{c}" "v_open v"] by simp
  with assms show ?thesis by (auto simp: server_inv_def sockets_ok_def maxWorkers_def)
qed

subsection \<open>Properties\<close>

text \<open>C16: whatever the network answers, whenever workers finish and \<open>Stop\<close> is called, a server has at most one socket
  open and at most 256 workers; while it is not stopped and past its binding, its current socket is the one
  that is open.\<close>

theorem one_socket:
  assumes "(serve udp_loop)\<^sup>*\<^sup>* (new_server P_resolve) u" and "(serve tcp_loop)\<^sup>*\<^sup>* (new_server P_bind) t"
  shows "card (v_open u) \<le> 1 \<and> size (v_jobs u) \<le> 256 \<and> card (v_open t) \<le> 1 \<and> size (v_jobs t) \<le> 256 \<and>
    (v_pc u = P_read \<and> \<not> v_done u \<longrightarrow> v_conn u \<noteq> None \<and> v_open u = set_option (v_conn u)) \<and>
    (v_pc t = P_read \<and> \<not> v_done t \<longrightarrow> v_conn t \<noteq> None \<and> v_open t = set_option (v_conn t))"
proof -
  have inv: "server_inv u" "server_inv t"
    using udp.run_inv [OF assms(1)] tcp.run_inv [OF assms(2)] new_server_inv by blast+
  show ?thesis using server_inv_bounds [OF inv(1)] server_inv_bounds [OF inv(2)] by blast
qed

text \<open>A stopped loop does not read again: it finds its socket closed, or the channel.\<close>

definition stopped_inv :: "'j server \<Rightarrow> bool" where
  "stopped_inv v \<longleftrightarrow> v_done v \<and> (v_pc v = P_read \<longrightarrow> v_open v = {}) \<and> size (v_jobs v) \<le> maxWorkers"

lemma stopped_serve: "serve udp_loop v v' \<Longrightarrow> stopped_inv v \<Longrightarrow> stopped_inv v'"
proof (induction rule: serve.induct)
  case (turn ans v v')
  then show ?case by (cases "v_pc v") (auto simp: stopped_inv_def split: answer.splits if_splits)
next
  case (finish j v)
  then show ?case by (auto simp: stopped_inv_def size_Diff_singleton)
qed (simp add: stopped_inv_def Stop_server_def)

lemma Stop_stopped:
  assumes "server_inv u" and "Stop_server u = Done u1" and "(serve udp_loop)\<^sup>*\<^sup>* u1 u2"
  shows "stopped_inv u2"
  using assms(3)
proof (induction rule: rtranclp_induct)
  case base
  show ?case
    using assms(1,2) by (auto simp: stopped_inv_def server_inv_def sockets_ok_def Stop_server_def split: if_splits)
qed (blast intro: stopped_serve)

text \<open>The loop holds a query and all 256 slots are taken.\<close>

definition waits_for_slot :: "'j server \<Rightarrow> bool" where
  "waits_for_slot v \<longleftrightarrow> (\<exists>j. v_pc v = P_got j) \<and> size (v_jobs v) = maxWorkers"

lemma stopped_ends:
  assumes "stopped_inv v" and "\<not> waits_for_slot v"
  shows "\<exists>n\<le>3. \<exists>v' r. turns udp_loop (take n (a # b # c # rest)) v = Some v' \<and> v_pc v' = P_exit r"
proof -
  have at_n: ?thesis if "turns udp_loop (take n (a # b # c # rest)) v = Some v'" "v_pc v' = P_exit r" "n \<le> 3" for n v' r
    using that by blast
  have ended: "v_done v" and closed: "v_pc v = P_read \<Longrightarrow> on_socket a v = Fails ErrClosed" and jobs: "size (v_jobs v) \<le> maxWorkers"
    using assms(1) by (auto simp: stopped_inv_def on_socket_def split: option.split)
  have "\<not> is_timeout ErrClosed" by (simp add: is_timeout_def ErrClosed_def)
  note facts = this ended closed jobs assms(2)
  show ?thesis
  proof (cases "v_pc v")
    case P_resolve
    then show ?thesis
      using facts at_n [of "Suc 0"] at_n [of "Suc (Suc 0)"] by (cases a) auto
  next
    case P_bind
    then show ?thesis using facts at_n [of "Suc 0"] by (auto simp: waits_for_slot_def)
  next
    case P_listen
    then show ?thesis
      using facts at_n [of "Suc (Suc 0)"] at_n [of "Suc (Suc (Suc 0))"] by (cases a) auto
  next
    case (P_bound x)
    then show ?thesis using facts at_n [of "Suc (Suc 0)"] by (auto simp: waits_for_slot_def)
  next
    case P_poll
    then show ?thesis using facts at_n [of "Suc 0"] by (auto simp: waits_for_slot_def)
  next
    case P_read
    then show ?thesis using facts at_n [of "Suc (Suc 0)"] by (auto simp: waits_for_slot_def)
  next
    case (P_failed x)
    then show ?thesis using facts at_n [of "Suc 0"] by (auto simp: waits_for_slot_def)
  next
    case (P_got x)
    then show ?thesis using facts at_n [of "Suc (Suc 0)"] by (auto simp: waits_for_slot_def)
  next
    case (P_exit x)
    then show ?thesis using facts at_n [of "0"] by (auto simp: waits_for_slot_def)
  qed
qed

text \<open>C17: \<open>Stop\<close> releases the socket for good: called in any reachable state outside the window between the bind's look at
  the channel and the assignment of the new socket, it leaves no socket open, now or later. It ends the UDP loop within
  three of its steps from any later state, whatever the network answers, with one exception: a loop that holds a query while all 256
  workers are busy does not look at the channel and makes no step before a worker has ended.\<close>

theorem Stop_releases:
  assumes "(serve udp_loop)\<^sup>*\<^sup>* (new_server P_resolve) u" and "Stop_server u = Done u1"
    and "(serve udp_loop)\<^sup>*\<^sup>* u1 u2"
  shows "(binding (v_pc u) \<or> v_open u2 = {}) \<and>
    (if waits_for_slot u2 then \<forall>ans. udp_loop ans (v_pc u2) u2 = None
     else \<exists>n\<le>3. \<exists>u3 r. turns udp_loop (take n (a # b # c # rest)) u2 = Some u3 \<and> v_pc u3 = P_exit r)"
proof -
  have inv: "server_inv u" using udp.run_inv [OF assms(1)] new_server_inv by blast
  then have "v_open u2 = {}" if "\<not> binding (v_pc u)" using udp.Stop_then_closed that assms(2,3) by blast
  moreover have "udp_loop ans (v_pc u2) u2 = None" if "waits_for_slot u2" for ans
    using that by (auto simp: waits_for_slot_def)
  ultimately show ?thesis using stopped_ends [OF Stop_stopped [OF inv assms(2,3)], of a b c rest] by auto
qed

text \<open>The window is real: \<open>Stop\<close> between the look at the channel and the assignment leaves the new socket open
  although the loop ends.\<close>

lemma Stop_in_window:
  "(serve udp_loop)\<^sup>*\<^sup>* ((new_server P_bind)\<lparr>v_pc := P_listen\<rparr>) ((new_server P_bind)
     \<lparr>v_pc := P_exit None, v_done := True, v_conn := Some 0, v_open := {0}, v_next := 1\<rparr>)"
proof -
  define v :: "(nat \<times> bytes) server" where "v = (new_server P_bind)\<lparr>v_pc := P_listen\<rparr>"
  let ?v1 = "v\<lparr>v_done := True\<rparr>"
  have "serve udp_loop v ?v1" by (rule serve.stop) (simp add: v_def new_server_def Stop_server_def)
  moreover have "(serve udp_loop)\<^sup>*\<^sup>* ?v1 (v\<lparr>v_pc := P_exit None, v_done := True, v_conn := Some 0, v_open := {0}, v_next := 1\<rparr>)"
    by (rule turns_serve [of _ "[Ok, Ok, Ok]"]) (simp add: v_def new_server_def)
  ultimately have "(serve udp_loop)\<^sup>*\<^sup>* v (v\<lparr>v_pc := P_exit None, v_done := True, v_conn := Some 0, v_open := {0}, v_next := 1\<rparr>)"
    by (rule converse_rtranclp_into_rtranclp)
  then show ?thesis by (simp add: v_def)
qed

text \<open>After an accept error that is no timeout the TCP loop is over, with its socket still open, while the UDP loop
  goes back to binding.\<close>

lemma accept_error_final:
  assumes "v_pc v = P_read" and "\<not> v_done v" and "v_conn v = Some c" and "c \<in> v_open v" and "\<not> is_timeout e"
  shows "turns tcp_loop [Fails e, ans] v = Some (v\<lparr>v_pc := P_exit (Some e)\<rparr>)"
  using assms by (simp add: on_socket_def)

lemma read_error_rebinds:
  assumes "v_pc v = P_read" and "\<not> v_done v" and "v_conn v = Some c" and "c \<in> v_open v" and "\<not> is_timeout e"
  shows "turns udp_loop [Fails e, ans, Ok] v = Some (v\<lparr>v_pc := P_bind, v_open := v_open v - {c}\<rparr>)"
  using assms by (simp add: on_socket_def)

definition ex_server :: "(nat \<times> bytes) server" where
  "ex_server = (new_server P_resolve)\<lparr>v_pc := P_read, v_conn := Some 0, v_open := {0}, v_next := 1\<rparr>"

lemma ex_server_reached: "(serve udp_loop)\<^sup>*\<^sup>* (new_server P_resolve) ex_server"
  by (rule turns_serve [of _ "[Ok, Ok, Ok, Ok, Ok]"]) (simp add: ex_server_def new_server_def)

theorem one_socket_witness: "card (v_open ex_server) \<le> 1 \<and> v_open ex_server = set_option (v_conn ex_server)"
  using one_socket [OF ex_server_reached rtranclp.rtrancl_refl]
  by (simp add: ex_server_def new_server_def)

theorem Stop_releases_witness:
  "\<exists>u. Stop_server ex_server = Done u \<and> v_open u = {} \<and>
    (\<exists>n\<le>3. \<exists>u' r. turns udp_loop (take n [Got [1], Ok, Ok]) u = Some u' \<and> v_pc u' = P_exit r)"
proof -
  obtain u where u: "Stop_server ex_server = Done u"
    by (simp add: ex_server_def new_server_def Stop_server_def)
  note stop = Stop_releases [OF ex_server_reached u rtranclp.rtrancl_refl, of "Got [1]" Ok Ok "[]"]
  have "\<not> binding (v_pc ex_server)" "\<not> waits_for_slot u"
    using u by (auto simp: ex_server_def new_server_def Stop_server_def waits_for_slot_def)
  with u stop show ?thesis by simp
qed

end
