(* ===== verification/Cover.thy ===== *)
theory Cover
  imports ProxySpec
begin

text \<open>
  \<open>cover.go\<close>: the cover traffic, a loop that sends one ordinary query after another, each to a resolver of the
  pool, with a random pause between them. It is a second client of the pool, and needs only its contract
  \<open>resolver_source\<close>, which \<open>upstream_pool\<close> extends.
\<close>

subsection \<open>State\<close>

definition coverDomains :: "string list" where
  "coverDomains =
     [''google.com'', ''microsoft.com'', ''apple.com'', ''amazon.com'',
      ''cloudflare.com'', ''facebook.com'', ''github.com'', ''wikipedia.org'',
      ''yahoo.com'', ''bing.com'', ''reddit.com'', ''twitter.com'',
      ''linkedin.com'', ''netflix.com'', ''instagram.com'', ''whatsapp.com'']"

text \<open>The two delays, in nanoseconds; the seconds come as floating-point numbers from the command line.\<close>

record CoverTraffic =
  minDelay :: int
  maxDelay :: int

definition second_ns :: rat where
  "second_ns = 10 ^ 9"

definition NewCoverTraffic :: "(rat \<Rightarrow> int) \<Rightarrow> rat \<Rightarrow> rat \<Rightarrow> CoverTraffic" where
  "NewCoverTraffic oor minSec maxSec =
     \<lparr>minDelay = int64_of_float oor (fl (minSec * second_ns)),
      maxDelay = int64_of_float oor (fl (maxSec * second_ns))\<rparr>"

subsection \<open>The loop\<close>

text \<open>
  What one turn meets: whether the \<open>done\<close> channel is closed at its two looks, the random numbers for the domain,
  the selection and the pause, and the network. A turn gives the query it sent, if the DNS library could build it, with the
  resolver, and the pause.
\<close>

record cover_env =
  ce_stopped :: bool
  ce_domain :: nat
  ce_draws :: "nat \<Rightarrow> nat"
  ce_net :: transport
  ce_float :: rat
  ce_stopped_late :: bool

record 'r cover_query =
  cq_resolver :: 'r
  cq_domain :: string
  cq_answer :: "(goerr + bytes) option"
  cq_delay :: int

definition cover_delay :: "(rat \<Rightarrow> int) \<Rightarrow> CoverTraffic \<Rightarrow> rat \<Rightarrow> int" where
  "cover_delay oor c f =
     i64 (minDelay c + int64_of_float oor (fl (f * float_of_int64 (i64 (maxDelay c - minDelay c)))))"

definition cover_turn ::
  "((nat \<Rightarrow> nat) \<Rightarrow> 'p \<Rightarrow> 'r outcome \<times> 'p) \<Rightarrow> (transport \<Rightarrow> bytes \<Rightarrow> 'r \<Rightarrow> 'p \<Rightarrow> goerr + bytes) \<Rightarrow>
   (rat \<Rightarrow> int) \<Rightarrow> (string \<Rightarrow> bytes option) \<Rightarrow> CoverTraffic \<Rightarrow> cover_env \<Rightarrow> 'p \<Rightarrow> 'r cover_query outcome \<times> 'p" where
  "cover_turn getNext send oor mkquery c env p =
     (let domain = coverDomains ! (ce_domain env mod length coverDomains) in
      and_then (getNext (ce_draws env) p) (\<lambda>resolver p.
        (Done \<lparr>cq_resolver = resolver, cq_domain = domain,
               cq_answer = (case mkquery domain of None \<Rightarrow> None
                            | Some query \<Rightarrow> Some (send (ce_net env) query resolver p)),
               cq_delay = cover_delay oor c (ce_float env)\<rparr>, p)))"

text \<open>The queries of a run of the loop, and whether it was stopped within it.\<close>

fun cover_loop ::
  "((nat \<Rightarrow> nat) \<Rightarrow> 'p \<Rightarrow> 'r outcome \<times> 'p) \<Rightarrow> (transport \<Rightarrow> bytes \<Rightarrow> 'r \<Rightarrow> 'p \<Rightarrow> goerr + bytes) \<Rightarrow>
   (rat \<Rightarrow> int) \<Rightarrow> (string \<Rightarrow> bytes option) \<Rightarrow> CoverTraffic \<Rightarrow> cover_env list \<Rightarrow> 'p
   \<Rightarrow> ('r cover_query list \<times> bool) outcome \<times> 'p" where
  "cover_loop getNext send oor mkquery c [] p = (Done ([], False), p)"
| "cover_loop getNext send oor mkquery c (env # envs) p =
     (if ce_stopped env then (Done ([], True), p)
      else and_then (cover_turn getNext send oor mkquery c env p) (\<lambda>q p.
        if ce_stopped_late env then (Done ([q], True), p)
        else and_then (cover_loop getNext send oor mkquery c envs p) (\<lambda>(qs, stopped) p.
               (Done (q # qs, stopped), p))))"

abbreviation pool_cover :: "(rat \<Rightarrow> int) \<Rightarrow> (string \<Rightarrow> bytes option) \<Rightarrow> CoverTraffic \<Rightarrow> cover_env list \<Rightarrow> pool
    \<Rightarrow> (Resolver cover_query list \<times> bool) outcome \<times> pool" where
  "pool_cover \<equiv> cover_loop GetNext SendQuery"

text \<open>\<open>Stop\<close> closes the channel; a second call panics.\<close>

definition Stop_cover :: "bool \<Rightarrow> bool outcome" where
  "Stop_cover stopped = (if stopped then Panic else Done True)"

subsection \<open>Cover traffic as a client of the pool\<close>

context resolver_source
begin

lemma cover_turn_law:
  assumes "ready p"
  shows "\<exists>q. cover_turn getNext send oor mkquery c env p = (Done q, p) \<and> cq_resolver q \<in> known p \<and>
    cq_domain q \<in> set coverDomains \<and> cq_delay q = cover_delay oor c (ce_float env)"
proof -
  obtain r where "getNext (ce_draws env) p = (Done r, p)" "r \<in> known p"
    using getNext_law [OF assms] by blast
  moreover have "coverDomains \<noteq> []" by (simp add: coverDomains_def)
  ultimately show ?thesis by (simp add: cover_turn_def Let_def nth_mod_mem)
qed

lemma cover_loop_law:
  assumes "ready p"
  shows "\<exists>qs stopped. cover_loop getNext send oor mkquery c envs p = (Done (qs, stopped), p) \<and>
    (\<forall>q \<in> set qs. cq_resolver q \<in> known p \<and> cq_domain q \<in> set coverDomains \<and>
      (\<exists>env \<in> set envs. cq_delay q = cover_delay oor c (ce_float env)))"
proof (induction envs)
  case (Cons env envs)
  obtain q where q: "cover_turn getNext send oor mkquery c env p = (Done q, p)" "cq_resolver q \<in> known p"
    "cq_domain q \<in> set coverDomains" "cq_delay q = cover_delay oor c (ce_float env)"
    using cover_turn_law [OF assms] by blast
  with Cons show ?case by fastforce
qed auto

end

text \<open>C36: cover traffic leaves no trace in the pool: on a well-formed, unlocked pool the loop never panics nor waits
  for a lock, sends each query to a resolver of the pool for one of the fixed domains, and leaves the pool
  exactly as it was: cover queries are counted nowhere and a resolver that fails them is not marked.\<close>

theorem cover_leaves_pool:
  assumes "pool_inv p" and "p_mu p = Readers 0"
  shows "\<exists>qs stopped. pool_cover oor mkquery c envs p = (Done (qs, stopped), p) \<and>
    (\<forall>q \<in> set qs. p_stats p (cq_resolver q) \<noteq> None \<and> cq_domain q \<in> set coverDomains)"
proof -
  have "pool_ready p" using assms by (simp add: pool_ready_def)
  from source.cover_loop_law [OF this, of SendQuery oor mkquery c envs] show ?thesis
    unfolding pool_known_def dom_def by blast
qed

text \<open>On a pool that an update has locked for good the cover traffic ends as well, in its first turn.\<close>

lemma cover_frozen:
  "p_mu p = Writer \<Longrightarrow> \<not> ce_stopped env \<Longrightarrow> pool_cover oor mkquery c (env # envs) p = (Blocked, p)"
  by (simp add: cover_turn_def Writer_blocks Let_def)

subsection \<open>The pause\<close>

lemma scaled_bound:
  assumes "0 \<le> f" and "f < 1" and "0 \<le> d" and "d < 2 ^ 53"
  shows "0 \<le> truncate_float (fl (f * float_of_int64 d)) \<and> truncate_float (fl (f * float_of_int64 d)) \<le> d"
proof (rule truncate_float_le)
  have d: "float_of_int64 d = of_int d" unfolding float_of_int64_def using assms(3,4) by (intro fl_exact) simp
  have le: "0 \<le> f * of_int d" "f * of_int d \<le> of_int d"
    using assms by (simp_all add: mult_left_le_one_le)
  then show "0 \<le> fl (f * float_of_int64 d)" unfolding d by (intro fl_nonneg)
  have "fl (f * of_int d) \<le> fl (of_int d)" by (rule fl_mono [OF le])
  then show "fl (f * float_of_int64 d) \<le> of_int d" unfolding d using assms(3,4) fl_exact [of d] by simp
qed

text \<open>C37: the pause lies between the two configured delays, whichever is larger, for every random number
  and in spite of the rounding, as long as the delays are less than \<open>2 ^ 53\<close> ns (104 days) apart.\<close>

theorem cover_delay_between:
  assumes "0 \<le> f" and "f < 1" and "\<bar>maxDelay c - minDelay c\<bar> < 2 ^ 53"
    and "\<bar>minDelay c\<bar> < 2 ^ 62" and "\<bar>maxDelay c\<bar> < 2 ^ 62"
  shows "min (minDelay c) (maxDelay c) \<le> cover_delay oor c f \<and> cover_delay oor c f \<le> max (minDelay c) (maxDelay c)"
proof -
  define d where "d = maxDelay c - minDelay c"
  define t where "t = truncate_float (fl (f * float_of_int64 d))"
  have t: "(0 \<le> d \<longrightarrow> 0 \<le> t \<and> t \<le> d) \<and> (d \<le> 0 \<longrightarrow> d \<le> t \<and> t \<le> 0)"
  proof (cases "0 \<le> d")
    case True
    then show ?thesis using scaled_bound [OF assms(1,2) True] assms(3) by (auto simp: d_def t_def)
  next
    case False
    have "truncate_float (fl (f * float_of_int64 (- d))) = - t"
      by (simp add: t_def float_of_int64_def truncate_float_minus)
    with False show ?thesis using scaled_bound [OF assms(1,2), of "- d"] assms(3) by (simp add: d_def)
  qed
  have "i64 d = d" using assms(3) by (intro i64_id) (simp_all add: d_def)
  moreover have "\<bar>t\<bar> \<le> \<bar>d\<bar>" using t by linarith
  then have "\<bar>t\<bar> < 2 ^ 53" using assms(3) unfolding d_def by (rule le_less_trans)
  then have "int64_of_float oor (fl (f * float_of_int64 d)) = t"
    unfolding int64_of_float_def Let_def t_def [symmetric] by (simp add: abs_less_iff)
  moreover have "i64 (minDelay c + t) = minDelay c + t"
    using t assms(4,5) by (intro i64_id) (auto simp: d_def)
  ultimately have "cover_delay oor c f = minDelay c + t" by (simp add: cover_delay_def d_def)
  with t show ?thesis by (auto simp: d_def min_def max_def)
qed

definition ex_cover :: CoverTraffic where
  "ex_cover = \<lparr>minDelay = 5 * 10 ^ 9, maxDelay = 15 * 10 ^ 9\<rparr>"

definition ex_turn :: cover_env where
  "ex_turn = \<lparr>ce_stopped = False, ce_domain = 3, ce_draws = id, ce_net = ex_dead_net, ce_float = 1 / 2, ce_stopped_late = False\<rparr>"

theorem cover_delay_between_witness:
  "5 * 10 ^ 9 \<le> cover_delay (\<lambda>_. 0) ex_cover (1 / 2) \<and> cover_delay (\<lambda>_. 0) ex_cover (1 / 2) \<le> 15 * 10 ^ 9"
  using cover_delay_between [of "1 / 2" ex_cover "\<lambda>_. 0"] by (simp add: ex_cover_def)

theorem cover_leaves_pool_witness:
  "\<exists>qs stopped. pool_cover (\<lambda>_. 0) (\<lambda>_. Some [1]) ex_cover [ex_turn, ex_turn] ex_pool = (Done (qs, stopped), ex_pool)"
  using cover_leaves_pool [OF ex_pool_inv ex_pool_simps(1)] by blast

end
