(* ===== verification/Embed.thy ===== *)
theory Embed
  imports GoStrings
begin

text \<open>
  \<open>embed.go\<close>: unpacking the binaries that are bundled with the program into a temporary directory.
\<close>

subsection \<open>The file system\<close>

text \<open>
  The directories and files there are, and what the system answers: the bundled files, the name of the directory
  \<open>os.MkdirTemp\<close> makes, and how a write turns out: complete, or failed with a partial file or none left behind.
\<close>

record disk =
  d_dirs :: "string set"
  d_files :: "string \<rightharpoonup> bytes"

datatype write_result = Written | WriteFailed "bytes option"

record extract_sys =
  x_bundled :: "string \<Rightarrow> bytes option"
  x_mkdirTemp :: "string \<Rightarrow> string option"
  x_write :: "string \<Rightarrow> bytes \<Rightarrow> write_result"

definition MkdirTemp :: "extract_sys \<Rightarrow> string \<Rightarrow> disk \<Rightarrow> string option \<times> disk" where
  "MkdirTemp sys pattern d =
     (case x_mkdirTemp sys pattern of None \<Rightarrow> (None, d)
      | Some dir \<Rightarrow> (Some dir, d\<lparr>d_dirs := insert dir (d_dirs d)\<rparr>))"

definition WriteFile :: "extract_sys \<Rightarrow> string \<Rightarrow> bytes \<Rightarrow> disk \<Rightarrow> bool \<times> disk" where
  "WriteFile sys path data d =
     (case x_write sys path data of
        Written \<Rightarrow> (True, d\<lparr>d_files := (d_files d)(path \<mapsto> data)\<rparr>)
      | WriteFailed None \<Rightarrow> (False, d)
      | WriteFailed (Some part) \<Rightarrow> (False, d\<lparr>d_files := (d_files d)(path \<mapsto> part)\<rparr>))"

definition under :: "string \<Rightarrow> string \<Rightarrow> bool" where
  "under dir path \<longleftrightarrow> HasPrefix path (dir @ ''/'')"

definition RemoveAll :: "string \<Rightarrow> disk \<Rightarrow> disk" where
  "RemoveAll dir d =
     d\<lparr>d_dirs := {x \<in> d_dirs d. x \<noteq> dir \<and> \<not> under dir x},
       d_files := (\<lambda>path. if path = dir \<or> under dir path then None else d_files d path)\<rparr>"

subsection \<open>Unpacking\<close>

text \<open>
  The two functions have the same body. The result is the path of the binary and the directory to remove, two empty
  texts when there is nothing to run.
\<close>

definition extract_bundled :: "string \<Rightarrow> string \<Rightarrow> string \<Rightarrow> extract_sys \<Rightarrow> disk \<Rightarrow> (string \<times> string) \<times> disk" where
  "extract_bundled asset pattern name sys d =
     (case x_bundled sys asset of None \<Rightarrow> (('''', ''''), d)
      | Some data \<Rightarrow>
          if length data = 0 then (('''', ''''), d)
          else case MkdirTemp sys pattern d of
            (None, d) \<Rightarrow> (('''', ''''), d)
          | (Some tmpDir, d) \<Rightarrow>
              (let path = tmpDir @ ''/'' @ name in
               case WriteFile sys path data d of
                 (False, d) \<Rightarrow> (('''', ''''), RemoveAll tmpDir d)
               | (True, d) \<Rightarrow> ((path, tmpDir), d)))"

definition extractEmbeddedSlipnet :: "extract_sys \<Rightarrow> disk \<Rightarrow> (string \<times> string) \<times> disk" where
  "extractEmbeddedSlipnet = extract_bundled ''embedded/slipnet'' ''dns-mux-slipnet-*'' ''slipnet''"

definition extractEmbeddedFindns :: "extract_sys \<Rightarrow> disk \<Rightarrow> (string \<times> string) \<times> disk" where
  "extractEmbeddedFindns = extract_bundled ''embedded/findns'' ''dns-mux-findns-*'' ''findns''"

subsection \<open>All or nothing\<close>

text \<open>\<open>os.MkdirTemp\<close> makes a new directory.\<close>

definition fresh_dir :: "string \<Rightarrow> disk \<Rightarrow> bool" where
  "fresh_dir dir d \<longleftrightarrow> dir \<noteq> [] \<and> dir \<notin> d_dirs d \<and> d_files d dir = None \<and>
     (\<forall>path. under dir path \<longrightarrow> path \<notin> d_dirs d \<and> d_files d path = None)"

lemma RemoveAll_fresh:
  assumes "fresh_dir dir d" and "d_dirs d' = insert dir (d_dirs d)"
    and "\<And>path. \<not> under dir path \<Longrightarrow> d_files d' path = d_files d path"
  shows "RemoveAll dir d' = d"
proof -
  have "{x \<in> d_dirs d'. x \<noteq> dir \<and> \<not> under dir x} = d_dirs d"
    using assms(1,2) by (auto simp: fresh_dir_def)
  moreover have "(\<lambda>path. if path = dir \<or> under dir path then None else d_files d' path) = d_files d"
    using assms(1,3) by (auto simp: fresh_dir_def fun_eq_iff)
  ultimately show ?thesis by (simp add: RemoveAll_def)
qed

lemma under_child: "under dir (dir @ ''/'' @ name)"
  by (simp add: under_def HasPrefix_def)

text \<open>C27: unpacking a bundled binary is all or nothing, however the file system fails: either nothing is returned
  and the disk is as it was, a partly written file included, or the path returned holds the complete binary, and
  removing the directory that is returned with it restores the disk.\<close>

theorem extract_all_or_nothing:
  assumes "\<And>dir. x_mkdirTemp sys pattern = Some dir \<Longrightarrow> fresh_dir dir d"
    and "extract_bundled asset pattern name sys d = ((path, dir), d')"
  shows "path = [] \<and> dir = [] \<and> d' = d \<or>
    (\<exists>data. x_bundled sys asset = Some data \<and> data \<noteq> [] \<and> d_files d' path = Some data \<and>
      path = dir @ ''/'' @ name \<and> RemoveAll dir d' = d)"
proof (cases "x_bundled sys asset")
  case (Some data)
  show ?thesis
  proof (cases "data = [] \<or> x_mkdirTemp sys pattern = None")
    case True
    with assms(2) Some show ?thesis
      by (cases "data = []") (simp_all add: extract_bundled_def MkdirTemp_def)
  next
    case False
    then obtain tmp where tmp: "x_mkdirTemp sys pattern = Some tmp" by blast
    let ?d = "d\<lparr>d_dirs := insert tmp (d_dirs d)\<rparr>" and ?path = "tmp @ ''/'' @ name"
    note child = under_child [of tmp name]
    have removed: "RemoveAll tmp (?d\<lparr>d_files := (d_files d)(?path := content)\<rparr>) = d" for content
      using assms(1) [OF tmp] child by (intro RemoveAll_fresh) auto
    have kept: "RemoveAll tmp ?d = d" using assms(1) [OF tmp] by (intro RemoveAll_fresh) simp_all
    show ?thesis
      using assms(2) Some False tmp removed kept
      by (cases "x_write sys ?path data")
        (auto simp: extract_bundled_def MkdirTemp_def WriteFile_def Let_def split: option.splits)
  qed
qed (use assms(2) in \<open>auto simp: extract_bundled_def\<close>)

definition ex_extract :: "write_result \<Rightarrow> extract_sys" where
  "ex_extract w = \<lparr>x_bundled = (\<lambda>_. Some [1, 2]), x_mkdirTemp = (\<lambda>_. Some ''/tmp/x''), x_write = (\<lambda>_ _. w)\<rparr>"

theorem extract_all_or_nothing_witness:
  "RemoveAll ''/tmp/x'' (snd (extractEmbeddedFindns (ex_extract Written) \<lparr>d_dirs = {''/tmp''}, d_files = Map.empty\<rparr>)) =
     \<lparr>d_dirs = {''/tmp''}, d_files = Map.empty\<rparr>"
proof -
  have "fresh_dir ''/tmp/x'' \<lparr>d_dirs = {''/tmp''}, d_files = Map.empty\<rparr>"
    by (auto simp: fresh_dir_def under_def HasPrefix_def)
  then show ?thesis
    using extract_all_or_nothing [of "ex_extract Written" "''dns-mux-findns-*''"
        "\<lparr>d_dirs = {''/tmp''}, d_files = Map.empty\<rparr>" "''embedded/findns''" "''findns''"]
    by (simp add: extractEmbeddedFindns_def extract_bundled_def ex_extract_def MkdirTemp_def WriteFile_def Let_def)
qed

end
