(* ===== verification/GoDuration.thy ===== *)
theory GoDuration
  imports GoStrings GoFloat
begin

text \<open>
  Go's \<open>time.ParseDuration\<close>: a duration as signed nanoseconds from a text such as \<open>1h15m30.5s\<close>, with the overflow
  checks of the library; \<open>None\<close> is its error.
\<close>

subsection \<open>Digits\<close>

definition two63 :: nat where
  "two63 = 2 ^ 63"

fun leadingInt :: "nat \<Rightarrow> string \<Rightarrow> (nat \<times> string) option" where
  "leadingInt x [] = Some (x, [])"
| "leadingInt x (c # s) =
     (case digit_val c of None \<Rightarrow> Some (x, c # s)
      | Some d \<Rightarrow>
          if two63 div 10 < x then None
          else if two63 < x * 10 + d then None
          else leadingInt (x * 10 + d) s)"

text \<open>The fraction's digits that fit, as a number and the power of ten it is over.\<close>

fun leadingFraction :: "nat \<Rightarrow> rat \<Rightarrow> bool \<Rightarrow> string \<Rightarrow> nat \<times> rat \<times> string" where
  "leadingFraction x scale overflow [] = (x, scale, [])"
| "leadingFraction x scale overflow (c # s) =
     (case digit_val c of None \<Rightarrow> (x, scale, c # s)
      | Some d \<Rightarrow>
          if overflow then leadingFraction x scale True s
          else if (two63 - 1) div 10 < x then leadingFraction x scale True s
          else if two63 < x * 10 + d then leadingFraction x scale True s
          else leadingFraction (x * 10 + d) (fl (scale * 10)) False s)"

lemma leadingInt_shorter: "leadingInt x s = Some (v, rest) \<Longrightarrow> length rest \<le> length s"
  by (induction x s rule: leadingInt.induct) (auto split: option.splits if_splits)

lemma leadingFraction_shorter: "leadingFraction x sc ov s = (f, sc', rest) \<Longrightarrow> length rest \<le> length s"
  by (induction x sc ov s rule: leadingFraction.induct) (auto split: option.splits if_splits)

subsection \<open>Units\<close>

text \<open>The two micro signs are in UTF-8.\<close>

definition unitMap :: "string \<rightharpoonup> nat" where
  "unitMap = map_of
     [(''ns'', 1), (''us'', 10 ^ 3), ([CHR 0xC2, CHR 0xB5, CHR ''s''], 10 ^ 3),
      ([CHR 0xCE, CHR 0xBC, CHR ''s''], 10 ^ 3), (''ms'', 10 ^ 6), (''s'', 10 ^ 9),
      (''m'', 60 * 10 ^ 9), (''h'', 3600 * 10 ^ 9)]"

definition unit_char :: "char \<Rightarrow> bool" where
  "unit_char c \<longleftrightarrow> c \<noteq> CHR ''.'' \<and> digit_val c = None"

definition split_unit :: "string \<Rightarrow> string \<times> string" where
  "split_unit s = (takeWhile unit_char s, dropWhile unit_char s)"

subsection \<open>One number with its unit\<close>

text \<open>\<open>frac\<close> is the fraction after the point, if there is one, and whether it has digits.\<close>

definition fraction_part :: "string \<Rightarrow> nat \<times> rat \<times> bool \<times> string" where
  "fraction_part s =
     (case s of c # s' \<Rightarrow>
          if c = CHR ''.'' then
            (case leadingFraction 0 1 False s' of (f, scale, rest) \<Rightarrow> (f, scale, length rest \<noteq> length s', rest))
          else (0, 1, False, s)
      | [] \<Rightarrow> (0, 1, False, s))"

definition dur_term :: "string \<Rightarrow> (nat \<times> string) option" where
  "dur_term s =
     (if s = [] \<or> \<not> (hd s = CHR ''.'' \<or> digit_val (hd s) \<noteq> None) then None
      else case leadingInt 0 s of None \<Rightarrow> None
      | Some (v, s1) \<Rightarrow>
          (case fraction_part s1 of (f, scale, post, s2) \<Rightarrow>
             if length s1 = length s \<and> \<not> post then None
             else case split_unit s2 of (u, rest) \<Rightarrow>
               if u = [] then None
               else case unitMap u of None \<Rightarrow> None
               | Some k \<Rightarrow>
                   if two63 div k < v then None
                   else if 0 < f then
                     (let v = v * k + nat \<lfloor>fl (fl (of_nat f) * fl (of_nat k / scale))\<rfloor>
                      in if two63 < v then None else Some (v, rest))
                   else Some (v * k, rest)))"

lemma dur_term_shorter: "dur_term s = Some (v, rest) \<Longrightarrow> length rest < length s"
proof -
  assume t: "dur_term s = Some (v, rest)"
  then obtain w s1 where s1: "leadingInt 0 s = Some (w, s1)"
    by (auto simp: dur_term_def split: if_splits option.splits)
  obtain f sc post s2 where s2: "fraction_part s1 = (f, sc, post, s2)" by (cases "fraction_part s1")
  have "length s2 \<le> length s1"
    using s2 by (auto simp: fraction_part_def split: list.splits if_splits prod.splits
        dest!: leadingFraction_shorter)
  moreover have "takeWhile unit_char s2 \<noteq> [] \<and> rest = dropWhile unit_char s2"
    using t s1 s2 by (auto simp: dur_term_def split_unit_def Let_def split: if_splits option.splits)
  then have "length rest < length s2"
    by (metis length_append length_greater_0_conv less_add_same_cancel2 takeWhile_dropWhile_id)
  ultimately show ?thesis using leadingInt_shorter [OF s1] by linarith
qed

subsection \<open>The parser\<close>

text \<open>The sum is kept in a \<open>uint64\<close>.\<close>

function dur_sum :: "nat \<Rightarrow> string \<Rightarrow> nat option" where
  "dur_sum d s =
     (if s = [] then Some d
      else case dur_term s of None \<Rightarrow> None
      | Some (v, rest) \<Rightarrow>
          (let d = (d + v) mod 2 ^ 64 in if two63 < d then None else dur_sum d rest))"
  by pat_completeness auto
termination
  by (relation "measure (\<lambda>(d, s). length s)") (auto dest: dur_term_shorter)

declare dur_sum.simps [simp del]

definition ParseDuration :: "string \<Rightarrow> int option" where
  "ParseDuration s =
     (let neg = (s \<noteq> [] \<and> hd s = CHR ''-'');
          s = (if s \<noteq> [] \<and> (hd s = CHR ''-'' \<or> hd s = CHR ''+'') then tl s else s)
      in if s = ''0'' then Some 0
         else if s = [] then None
         else case dur_sum 0 s of None \<Rightarrow> None
         | Some d \<Rightarrow>
             if neg then Some (- int d)
             else if two63 - 1 < d then None else Some (int d))"

lemma dur_sum_bound: "dur_sum d s = Some r \<Longrightarrow> d \<le> two63 \<Longrightarrow> r \<le> two63"
proof (induction d s rule: dur_sum.induct)
  case (1 d s)
  show ?case
  proof (cases "s = []")
    case True
    then show ?thesis using 1(2,3) by (simp add: dur_sum.simps [of d])
  next
    case False
    then obtain v rest where t: "dur_term s = Some (v, rest)"
      using 1(2) by (subst (asm) dur_sum.simps) (auto split: option.splits)
    let ?d = "(d + v) mod 2 ^ 64"
    have "dur_sum d s = (if two63 < ?d then None else dur_sum ?d rest)"
      by (subst dur_sum.simps) (simp add: False t Let_def)
    with 1(2) have "\<not> two63 < ?d" "dur_sum ?d rest = Some r" by (simp_all split: if_splits)
    then show ?thesis using 1(1) [OF False t refl refl] by (simp add: not_less)
  qed
qed

lemma ParseDuration_range: "ParseDuration s = Some d \<Longrightarrow> - (2 ^ 63) \<le> d \<and> d < 2 ^ 63"
proof -
  assume d: "ParseDuration s = Some d"
  have bound: "r \<le> two63" if "dur_sum 0 t = Some r" for t r using dur_sum_bound [OF that] by simp
  have "d = 0 \<or> (\<exists>n\<le>two63. d = - int n) \<or> (\<exists>n\<le>two63 - 1. d = int n)"
    using d bound by (auto simp: ParseDuration_def Let_def split: if_splits option.splits)
  then show ?thesis by (auto simp: two63_def)
qed

end
