(* ===== verification/Config.thy ===== *)
theory Config
  imports GoBase64
begin

text \<open>
  \<open>config.go\<close>: the \<open>slipnet://\<close> profile URI and its parser.
\<close>

subsection \<open>The profile\<close>

record SlipNetProfile =
  Version :: string
  TunnelType :: string
  Name :: string
  Domain :: string
  Resolvers :: string
  AuthMode :: bool
  KeepAlive :: int
  CC :: string
  Port :: int
  Host :: string
  GSO :: bool
  PublicKey :: string
  DNSTransport :: string
  DoHURL :: string
  SSHUsername :: string
  SSHPassword :: string
  SSHPort :: int
  SSHHost :: string
  SSHAuthType :: string

definition DisplayTunnelType :: "SlipNetProfile \<Rightarrow> string" where
  "DisplayTunnelType p =
     (if TunnelType p = ''sayedns'' \<or> TunnelType p = ''sayedns_ssh'' then ''noizdns''
      else if TunnelType p = ''dnstt'' \<or> TunnelType p = ''dnstt_ssh'' then ''dnstt''
      else TunnelType p)"

definition IsSSH :: "SlipNetProfile \<Rightarrow> bool" where
  "IsSSH p = HasSuffix (TunnelType p) ''_ssh''"

subsection \<open>Decoding the URI\<close>

datatype config_error = BadScheme | BadBase64 | NotEnoughFields nat

definition scheme :: string where
  "scheme = ''slipnet://''"

text \<open>The loop that pads the text to a multiple of four.\<close>

lemma pad_measure:
  fixes n :: nat
  assumes "0 < n mod 4"
  shows "(4 - Suc n mod 4) mod 4 < 4 - n mod 4"
proof -
  have "m = 1 \<or> m = 2 \<or> m = 3" if "m < 4" "m \<noteq> 0" for m :: nat using that by arith
  from this [of "n mod 4"] assms have "n mod 4 = 1 \<or> n mod 4 = 2 \<or> n mod 4 = 3" by simp
  then show ?thesis by (auto simp: mod_Suc)
qed

function pad4 :: "string \<Rightarrow> string" where
  "pad4 encoded = (if length encoded mod 4 \<noteq> 0 then pad4 (encoded @ ''='') else encoded)"
  by pat_completeness auto
termination
  by (relation "measure (\<lambda>s. (4 - length s mod 4) mod 4)") (simp_all add: pad_measure)

declare pad4.simps [simp del]

definition decode_profile :: "string \<Rightarrow> string option" where
  "decode_profile rest =
     (let encoded = Join (Fields rest) ''''
      in case DecodeString encoded of Some d \<Rightarrow> Some d | None \<Rightarrow> DecodeString (pad4 encoded))"

subsection \<open>The fields\<close>

text \<open>\<open>len(fields) > i && fields[i] != ""\<close>\<close>

definition has_field :: "string list \<Rightarrow> nat \<Rightarrow> bool" where
  "has_field flds i \<longleftrightarrow> i < length flds \<and> flds ! i \<noteq> ''''"

definition opt_field :: "string list \<Rightarrow> nat \<Rightarrow> string \<Rightarrow> string" where
  "opt_field flds i old = (if has_field flds i then flds ! i else old)"

text \<open>\<open>strconv.Atoi\<close> with the old value kept on an error or a value that is not positive.\<close>

definition positive_or :: "int \<Rightarrow> string \<Rightarrow> int" where
  "positive_or old s = (case Atoi s of None \<Rightarrow> old | Some v \<Rightarrow> if 0 < v then v else old)"

definition profile_of :: "string list \<Rightarrow> SlipNetProfile" where
  "profile_of flds =
     \<lparr>Version = flds ! 0, TunnelType = flds ! 1, Name = flds ! 2, Domain = flds ! 3,
      Resolvers = flds ! 4, AuthMode = (flds ! 5 = ''1''),
      KeepAlive = (case Atoi (flds ! 6) of None \<Rightarrow> 0 | Some v \<Rightarrow> v), CC = flds ! 7,
      Port = positive_or 1080 (flds ! 8),
      Host = (if flds ! 9 \<noteq> '''' then flds ! 9 else ''127.0.0.1''),
      GSO = (flds ! 10 = ''1''), PublicKey = flds ! 11,
      DNSTransport = opt_field flds 22 '''', DoHURL = opt_field flds 21 '''',
      SSHUsername = opt_field flds 15 '''', SSHPassword = opt_field flds 16 '''',
      SSHPort = (if has_field flds 17 then positive_or 22 (flds ! 17) else 22),
      SSHHost = opt_field flds 19 ''127.0.0.1'', SSHAuthType = opt_field flds 23 ''''\<rparr>"

definition ParseSlipNetURI :: "string \<Rightarrow> config_error + SlipNetProfile" where
  "ParseSlipNetURI uri =
     (if \<not> HasPrefix uri scheme then Inl BadScheme
      else case decode_profile (TrimPrefix uri scheme) of None \<Rightarrow> Inl BadBase64
      | Some decoded \<Rightarrow>
          (let flds = Split decoded (CHR ''|'')
           in if length flds < 12 then Inl (NotEnoughFields (length flds))
              else Inr (profile_of flds)))"

subsection \<open>Decoding lemmas\<close>

lemma decode_profile_enc: "decode_profile (EncodeToString s) = Some s"
  by (simp add: decode_profile_def Let_def base64.enc_survives_spaces)

lemma Parse_encoded:
  assumes "\<forall>f \<in> set fs. CHR ''|'' \<notin> set f" and "12 \<le> length fs"
  shows "ParseSlipNetURI (scheme @ EncodeToString (Join fs ''|'')) = Inr (profile_of fs)"
proof -
  have "fs \<noteq> []" using assms(2) by auto
  with assms show ?thesis
    by (simp add: ParseSlipNetURI_def decode_profile_enc Let_def Split_Join)
qed

lemma length_EncodeToString: "length (EncodeToString s) mod 4 = 0"
  by (induction s rule: EncodeToString.induct) (simp_all add: b64_quad_def)

lemma pad4_strip:
  assumes "length (s @ replicate k pad_char) mod 4 = 0" and "k < 4"
  shows "pad4 s = s @ replicate k pad_char"
  using assms
proof (induction k arbitrary: s)
  case 0
  then show ?case by (subst pad4.simps) simp
next
  case (Suc k)
  have "length s mod 4 \<noteq> 0"
  proof
    assume "length s mod 4 = 0"
    then have "(length s + Suc k) mod 4 = Suc k mod 4" by (metis add.left_neutral mod_add_left_eq)
    with Suc.prems(1) have "Suc k mod 4 = 0" by simp
    then show False using Suc.prems(2) by simp
  qed
  then have "pad4 s = pad4 (s @ [pad_char])" by (subst pad4.simps) simp
  also have "\<dots> = (s @ [pad_char]) @ replicate k pad_char"
    using Suc.prems by (intro Suc.IH) simp_all
  finally show ?case by simp
qed

lemma decode_groups_mod4: "decode_groups s = Some t \<Longrightarrow> length s mod 4 = 0"
  by (induction s arbitrary: t rule: decode_groups.induct) (auto split: option.splits if_splits)

lemma Encode_body:
  "\<exists>k<3. EncodeToString s = takeWhile (\<lambda>c. c \<noteq> pad_char) (EncodeToString s) @ replicate k pad_char"
proof (induction s rule: EncodeToString.induct)
  case 1
  then show ?case by (intro exI [of _ 0]) simp
next
  case (2 a)
  then show ?case
    using quad_bounds [OF char_less [of a] zero_less_256 zero_less_256] b64_char_not [of _ pad_char]
    by (intro exI [of _ 2]) (simp add: b64_quad_def numeral_2_eq_2)
next
  case (3 a b)
  then show ?case
    using quad_bounds [OF char_less [of a] char_less [of b] zero_less_256] b64_char_not [of _ pad_char]
    by (intro exI [of _ 1]) (simp add: b64_quad_def numeral_3_eq_3)
next
  case (4 a b c s)
  then show ?case
    using quad_bounds [OF char_less [of a] char_less [of b] char_less [of c]] b64_char_not [of _ pad_char]
    by (auto simp: b64_quad_def)
qed

lemma decode_profile_unpadded:
  "decode_profile (takeWhile (\<lambda>c. c \<noteq> pad_char) (EncodeToString s)) = Some s"
proof -
  let ?t = "takeWhile (\<lambda>c. c \<noteq> pad_char) (EncodeToString s)"
  obtain k where k: "k < 3" "EncodeToString s = ?t @ replicate k pad_char"
    using Encode_body by metis
  have t: "set ?t \<subseteq> b64_alphabet" using EncodeToString_alphabet [of s] set_takeWhileD by fastforce
  then have "Join (Fields ?t) [] = ?t" using b64_no_space by (intro Join_Fields_id) blast
  moreover have "pad4 ?t = EncodeToString s"
    using k length_EncodeToString [of s] by (subst k(2), intro pad4_strip) auto
  moreover have "DecodeString ?t = None \<or> DecodeString ?t = Some s"
  proof (cases "k = 0")
    case True
    with k(2) have "?t = EncodeToString s" by simp
    then show ?thesis by (metis DecodeString_EncodeToString)
  next
    case False
    have "length ?t mod 4 \<noteq> 0"
    proof
      assume "length ?t mod 4 = 0"
      moreover have "(length ?t + k) mod 4 = 0"
        using length_EncodeToString [of s] by (subst (asm) k(2)) simp
      ultimately have "k mod 4 = 0" by (metis add.left_neutral mod_add_left_eq)
      with k(1) False show False by simp
    qed
    then show ?thesis
      using decode_groups_mod4 [of ?t] filter_newlines_b64 [OF t]
      by (cases "decode_groups ?t") (auto simp: DecodeString_def)
  qed
  ultimately show ?thesis by (auto simp: decode_profile_def DecodeString_EncodeToString)
qed

subsection \<open>Properties\<close>

lemma positive_or_pos: "0 < old \<Longrightarrow> 0 < positive_or old s"
  by (auto simp: positive_or_def split: option.splits)

lemma opt_field_ne: "old \<noteq> [] \<Longrightarrow> opt_field flds i old \<noteq> []"
  by (simp add: opt_field_def has_field_def)

lemma profile_of_wf:
  "0 < Port (profile_of flds)" "0 < SSHPort (profile_of flds)"
  "Host (profile_of flds) \<noteq> []" "SSHHost (profile_of flds) \<noteq> []"
  by (simp_all add: profile_of_def positive_or_pos opt_field_ne)

text \<open>C39: a profile that parses is usable whatever the fields hold: both ports are positive and both
  host names are there, because empty, unparsable and non-positive fields keep the defaults.\<close>

theorem Parse_wellformed:
  assumes "ParseSlipNetURI uri = Inr p"
  shows "0 < Port p \<and> 0 < SSHPort p \<and> Host p \<noteq> '''' \<and> SSHHost p \<noteq> ''''"
proof -
  obtain flds where "p = profile_of flds"
    using assms by (auto simp: ParseSlipNetURI_def Let_def split: if_splits option.splits)
  then show ?thesis by (simp add: profile_of_wf)
qed

text \<open>The padding of the base64 text is optional: a URI whose text lost its trailing \<open>=\<close> signs
  parses to the same result, error or profile, as the complete one.\<close>

lemma Parse_unpadded:
  "ParseSlipNetURI (scheme @ takeWhile (\<lambda>c. c \<noteq> CHR ''='') (EncodeToString s)) =
   ParseSlipNetURI (scheme @ EncodeToString s)"
  by (simp add: ParseSlipNetURI_def decode_profile_enc decode_profile_unpadded)

definition ex_fields :: "string list" where
  "ex_fields = [''16'', ''dnstt_ssh'', ''auto'', ''t.example.com'', ''127.0.0.1:53:0'', ''0'', ''5000'', ''bbr'',
     ''x'', '''', ''1'', ''ab12'']"

theorem Parse_wellformed_witness: "0 < Port (profile_of ex_fields) \<and> Host (profile_of ex_fields) \<noteq> ''''"
  using Parse_wellformed [OF Parse_encoded [of ex_fields]] by (simp add: ex_fields_def)

end
