(* ===== verification/TunnelArgs.thy ===== *)
theory TunnelArgs
  imports Config
begin

text \<open>
  \<open>tunnel.go\<close>, the configuration of the managed tunnel client: its command line, and the two
  functions that rewrite or make up the profile it is given.
\<close>

subsection \<open>Configuration\<close>

record TunnelConfig =
  tc_Binary :: string
  tc_Profile :: string
  tc_Domain :: string
  tc_PublicKey :: string
  tc_TunnelType :: string
  tc_ListenAddr :: string
  tc_DNSAddr :: string
  tc_MTU :: int
  tc_QuerySize :: int
  tc_Stealth :: bool
  tc_SSHEnabled :: bool
  tc_SSHUsername :: string
  tc_SSHPassword :: string
  tc_SSHPort :: int

definition default_config :: "TunnelConfig \<Rightarrow> TunnelConfig" where
  "default_config c =
     (let c1 = (if tc_Binary c = '''' then c\<lparr>tc_Binary := ''slipnet''\<rparr> else c)
      in if tc_ListenAddr c1 = '''' then c1\<lparr>tc_ListenAddr := ''0.0.0.0:1080''\<rparr> else c1)"

subsection \<open>Profiles\<close>

definition patch_fields :: "string \<Rightarrow> string list \<Rightarrow> string list" where
  "patch_fields listenAddr flds =
     (let flds = flds[1 := TrimSuffix (flds ! 1) ''_ssh'']
      in if listenAddr = '''' then flds
         else case SplitHostPort listenAddr of None \<Rightarrow> flds
              | Some (host, port) \<Rightarrow>
                  (let flds = (if host \<noteq> '''' then flds[9 := host] else flds)
                   in if port \<noteq> '''' then flds[8 := port] else flds))"

definition patchProfile :: "string \<Rightarrow> string \<Rightarrow> string" where
  "patchProfile uri listenAddr =
     (if \<not> HasPrefix uri scheme then uri
      else case decode_profile (TrimPrefix uri scheme) of None \<Rightarrow> uri
      | Some decoded \<Rightarrow>
          (let flds = Split decoded (CHR ''|'')
           in if length flds < 10 then uri
              else scheme @ EncodeToString (Join (patch_fields listenAddr flds) ''|'')))"

definition generated_fields :: "TunnelConfig \<Rightarrow> string \<Rightarrow> string list" where
  "generated_fields c listenAddr =
     (let tunnelType = (if tc_TunnelType c = ''noizdns'' then ''sayedns''
                        else if tc_TunnelType c = '''' then ''dnstt'' else tc_TunnelType c);
          listenHost = (if listenAddr = '''' then ''0.0.0.0''
                        else case SplitHostPort listenAddr of None \<Rightarrow> ''0.0.0.0''
                             | Some (h, _) \<Rightarrow> if h \<noteq> '''' then h else ''0.0.0.0'')
      in (replicate 23 '''')
           [0 := ''16'', 1 := tunnelType, 2 := ''auto'', 3 := tc_Domain c, 4 := ''127.0.0.1:53:0'',
            5 := ''0'', 6 := ''5000'', 7 := ''bbr'', 8 := ''1080'', 9 := listenHost, 10 := ''0'',
            11 := tc_PublicKey c, 22 := ''udp''])"

definition generateProfileURI :: "TunnelConfig \<Rightarrow> string \<Rightarrow> string" where
  "generateProfileURI c listenAddr = scheme @ EncodeToString (Join (generated_fields c listenAddr) ''|'')"

subsection \<open>The command line\<close>

definition buildSlipnetArgs :: "TunnelConfig \<Rightarrow> string \<Rightarrow> string list" where
  "buildSlipnetArgs c listenAddr =
     (if tc_DNSAddr c \<noteq> '''' then [''--dns'', tc_DNSAddr c] else []) @
     (if listenAddr \<noteq> '''' then
        (case SplitHostPort listenAddr of None \<Rightarrow> []
         | Some (_, port) \<Rightarrow> if port \<noteq> '''' then [''--port'', port] else [])
      else []) @
     (if 0 < tc_MTU c then [''--mtu'', Itoa (tc_MTU c)] else []) @
     (if 0 < tc_QuerySize c then [''--query-size'', Itoa (tc_QuerySize c)] else []) @
     (if tc_Stealth c then [''--stealth''] else []) @
     [if tc_Profile c \<noteq> '''' then patchProfile (tc_Profile c) listenAddr
      else generateProfileURI c listenAddr]"

subsection \<open>Lemmas\<close>

lemma length_patch_fields [simp]: "length (patch_fields a flds) = length flds"
  by (auto simp: patch_fields_def Let_def split: option.splits)

lemma patch_fields_addr:
  assumes "SplitHostPort a = Some (h, q)" "h \<noteq> ''''" "q \<noteq> ''''"
  shows "patch_fields a flds = flds[1 := TrimSuffix (flds ! 1) ''_ssh'', 9 := h, 8 := q]"
proof -
  have "a \<noteq> ''''" using assms(1) by (auto simp: SplitHostPort_def last_colon_def)
  with assms show ?thesis by (simp add: patch_fields_def Let_def)
qed

lemma patch_fields_no_bar:
  assumes "\<forall>f \<in> set flds. c \<notin> set f" "c \<notin> set h" "c \<notin> set q" "1 < length flds"
  shows "\<forall>f \<in> set (flds[1 := TrimSuffix (flds ! 1) ''_ssh'', 9 := h, 8 := q]). c \<notin> set f"
proof
  fix f assume "f \<in> set (flds[1 := TrimSuffix (flds ! 1) ''_ssh'', 9 := h, 8 := q])"
  then have "f \<in> insert q (insert h (insert (TrimSuffix (flds ! 1) ''_ssh'') (set flds)))"
    by (auto dest!: set_update_subset_insert [THEN subsetD])
  moreover have "c \<notin> set (TrimSuffix (flds ! 1) ''_ssh'')"
    using assms(1,4) set_TrimSuffix [of "flds ! 1" "''_ssh''"] nth_mem [OF assms(4)] by blast
  ultimately show "c \<notin> set f" using assms(1-3) by auto
qed

lemma profile_of_patched:
  assumes "12 \<le> length flds" "h \<noteq> ''''" "Atoi q = Some n" "0 < n"
  shows "profile_of (flds[1 := TrimSuffix (flds ! 1) ''_ssh'', 9 := h, 8 := q]) =
     (profile_of flds)\<lparr>TunnelType := TrimSuffix (TunnelType (profile_of flds)) ''_ssh'', Host := h, Port := n\<rparr>"
  using assms by (simp add: profile_of_def opt_field_def has_field_def positive_or_def)

lemma Parse_Inr:
  assumes "ParseSlipNetURI uri = Inr p"
  obtains d where "HasPrefix uri scheme" "decode_profile (TrimPrefix uri scheme) = Some d"
    "12 \<le> length (Split d (CHR ''|''))" "p = profile_of (Split d (CHR ''|''))"
  using assms by (auto simp: ParseSlipNetURI_def Let_def split: if_splits option.splits)

subsection \<open>Properties\<close>

text \<open>C26: the profile handed to the tunnel client is the user's profile bound to the address the
  manager chose: after \<open>patchProfile\<close> it parses to the same profile with the \<open>_ssh\<close> suffix taken off
  its tunnel type and with the host and port of that address, and nothing else changed.\<close>

theorem patchProfile_parses:
  assumes "ParseSlipNetURI uri = Inr p" and "SplitHostPort addr = Some (host, port)"
    and "host \<noteq> ''''" and "Atoi port = Some n" and "0 < n"
    and "CHR ''|'' \<notin> set host" and "CHR ''|'' \<notin> set port"
  shows "ParseSlipNetURI (patchProfile uri addr) =
     Inr (p\<lparr>TunnelType := TrimSuffix (TunnelType p) ''_ssh'', Host := host, Port := n\<rparr>)"
proof -
  obtain d where d: "HasPrefix uri scheme" "decode_profile (TrimPrefix uri scheme) = Some d"
    "12 \<le> length (Split d (CHR ''|''))" "p = profile_of (Split d (CHR ''|''))"
    using Parse_Inr [OF assms(1)] .
  have "port \<noteq> ''''" using assms(4) by (auto simp: Atoi_def)
  define new where "new = (Split d (CHR ''|''))
    [1 := TrimSuffix (Split d (CHR ''|'') ! 1) ''_ssh'', 9 := host, 8 := port]"
  have "patchProfile uri addr = scheme @ EncodeToString (Join new ''|'')"
    using d assms(2,3) \<open>port \<noteq> ''''\<close> by (simp add: patchProfile_def Let_def patch_fields_addr new_def)
  moreover have "\<forall>f \<in> set new. CHR ''|'' \<notin> set f"
    unfolding new_def using d(3) assms(6,7) by (intro patch_fields_no_bar) (auto dest: Split_no_sep)
  then have "ParseSlipNetURI (scheme @ EncodeToString (Join new ''|'')) = Inr (profile_of new)"
    using d(3) by (intro Parse_encoded) (simp_all add: new_def)
  moreover have "profile_of new = p\<lparr>TunnelType := TrimSuffix (TunnelType p) ''_ssh'', Host := host, Port := n\<rparr>"
    unfolding new_def d(4) by (rule profile_of_patched [OF d(3) assms(3-5)])
  ultimately show ?thesis by simp
qed

lemma generateProfileURI_profile:
  assumes "CHR ''|'' \<notin> set (tc_Domain c)" and "CHR ''|'' \<notin> set (tc_PublicKey c)"
    and "CHR ''|'' \<notin> set (tc_TunnelType c)" and "SplitHostPort addr = Some (host, port)"
    and "host \<noteq> ''''" and "CHR ''|'' \<notin> set host"
  shows "\<exists>p. ParseSlipNetURI (generateProfileURI c addr) = Inr p \<and>
     Domain p = tc_Domain c \<and> PublicKey p = tc_PublicKey c \<and> Host p = host \<and> Port p = 1080 \<and>
     DNSTransport p = ''udp'' \<and>
     TunnelType p = (if tc_TunnelType c = ''noizdns'' then ''sayedns''
                     else if tc_TunnelType c = '''' then ''dnstt'' else tc_TunnelType c)"
proof -
  have "addr \<noteq> ''''" using assms(4) by (auto simp: SplitHostPort_def last_colon_def)
  then have g: "generated_fields c addr = [''16'', if tc_TunnelType c = ''noizdns'' then ''sayedns''
        else if tc_TunnelType c = '''' then ''dnstt'' else tc_TunnelType c, ''auto'', tc_Domain c,
      ''127.0.0.1:53:0'', ''0'', ''5000'', ''bbr'', ''1080'', host, ''0'', tc_PublicKey c,
      '''', '''', '''', '''', '''', '''', '''', '''', '''', '''', ''udp'']"
    using assms(4,5) by (simp add: generated_fields_def Let_def eval_nat_numeral)
  have "\<forall>f \<in> set (generated_fields c addr). CHR ''|'' \<notin> set f"
    unfolding g using assms(1-3,6) by simp
  then have "ParseSlipNetURI (generateProfileURI c addr) = Inr (profile_of (generated_fields c addr))"
    unfolding generateProfileURI_def by (rule Parse_encoded) (simp add: g)
  moreover have "Atoi ''1080'' = Some 1080" by code_simp
  ultimately show ?thesis
    using assms(5) by (simp add: g profile_of_def positive_or_def opt_field_def has_field_def)
qed

text \<open>A generated profile parses back to the configuration it was made from: domain, key and
  tunnel type (under the client's names), the listen host, UDP transport. Its port is always 1080,
  whatever port the address names.\<close>

lemma generateProfileURI_parses:
  assumes "CHR ''|'' \<notin> set (tc_Domain c)" and "CHR ''|'' \<notin> set (tc_PublicKey c)"
    and "CHR ''|'' \<notin> set (tc_TunnelType c)" and "SplitHostPort addr = Some (host, port)"
    and "host \<noteq> ''''" and "CHR ''|'' \<notin> set host"
  shows "\<exists>p. ParseSlipNetURI (generateProfileURI c addr) = Inr p \<and>
     Domain p = tc_Domain c \<and> PublicKey p = tc_PublicKey c \<and> Host p = host \<and> Port p = 1080 \<and>
     DNSTransport p = ''udp'' \<and>
     TunnelType p = (if tc_TunnelType c = ''noizdns'' then ''sayedns''
                     else if tc_TunnelType c = '''' then ''dnstt'' else tc_TunnelType c)"
  by (rule generateProfileURI_profile [OF assms])

subsection \<open>Instances\<close>

definition ex_config :: TunnelConfig where
  "ex_config = \<lparr>tc_Binary = '''', tc_Profile = '''', tc_Domain = ''t.example.com'', tc_PublicKey = ''ab12'',
     tc_TunnelType = ''noizdns'', tc_ListenAddr = '''', tc_DNSAddr = ''127.0.0.1:53'', tc_MTU = 1200,
     tc_QuerySize = 0, tc_Stealth = False, tc_SSHEnabled = False, tc_SSHUsername = '''', tc_SSHPassword = '''',
     tc_SSHPort = 22\<rparr>"

lemma ex_addr: "SplitHostPort ''127.0.0.1:7000'' = Some (''127.0.0.1'', ''7000'')"
  using SplitHostPort_plain [of "''127.0.0.1''" "''7000''"] by simp

theorem patchProfile_parses_witness:
  "ParseSlipNetURI (patchProfile (scheme @ EncodeToString (Join ex_fields ''|'')) ''127.0.0.1:7000'') =
     Inr ((profile_of ex_fields)\<lparr>TunnelType := ''dnstt'', Host := ''127.0.0.1'', Port := 7000\<rparr>)"
proof -
  have "Atoi ''7000'' = Some 7000" by code_simp
  moreover have "TrimSuffix (TunnelType (profile_of ex_fields)) ''_ssh'' = ''dnstt''"
    by (simp add: profile_of_def ex_fields_def TrimSuffix_def HasSuffix_def)
  ultimately show ?thesis
    using patchProfile_parses [OF Parse_encoded [of ex_fields] ex_addr, of 7000] by (simp add: ex_fields_def)
qed

lemma generateProfileURI_parses_witness:
  "\<exists>p. ParseSlipNetURI (generateProfileURI ex_config ''127.0.0.1:7000'') = Inr p \<and> Host p = ''127.0.0.1'' \<and>
     Port p = 1080 \<and> TunnelType p = ''sayedns''"
  using generateProfileURI_parses [of ex_config, OF _ _ _ ex_addr] by (auto simp: ex_config_def)

end
