(* ===== verification/MainConfig.thy ===== *)
theory MainConfig
  imports AutoScan ResolverList GoDuration Embed Cover TunnelArgs Reload
begin

text \<open>
  \<open>main.go\<close>, the configuration: the flags with their defaults, the choice between the program's three modes, and what
  each mode makes of the flags, the files and the profile before it starts anything. Exits with an
  error message are values of \<open>startup_error\<close>.
\<close>

subsection \<open>Flags\<close>

record flags =
  fl_listen :: string
  fl_resolvers :: "string list"
  fl_resolverFile :: string
  fl_doh :: bool
  fl_noAutoSelect :: bool
  fl_mode :: string
  fl_tcp :: bool
  fl_cover :: bool
  fl_coverMin :: rat
  fl_coverMax :: rat
  fl_healthCheck :: bool
  fl_stats :: bool
  fl_scan :: bool
  fl_scanDomain :: string
  fl_cacheEnabled :: bool
  fl_cacheSize :: int
  fl_tunnel :: bool
  fl_tunnelType :: string
  fl_tunnelDomain :: string
  fl_tunnelPubkey :: string
  fl_tunnelListen :: string
  fl_tunnelBinary :: string
  fl_tunnelProfile :: string
  fl_scanInterval :: string
  fl_scanMinScore :: int
  fl_scanTop :: int
  fl_scanWorkers :: int
  fl_tunnelMTU :: int
  fl_tunnelQuery :: int
  fl_tunnelStealth :: bool
  fl_noScan :: bool
  fl_findnsBinary :: string

definition default_flags :: flags where
  "default_flags =
     \<lparr>fl_listen = ''0.0.0.0:53'', fl_resolvers = [], fl_resolverFile = '''', fl_doh = False,
      fl_noAutoSelect = False, fl_mode = ''round-robin'', fl_tcp = False, fl_cover = False,
      fl_coverMin = 5, fl_coverMax = 15, fl_healthCheck = False, fl_stats = False, fl_scan = False,
      fl_scanDomain = '''', fl_cacheEnabled = False, fl_cacheSize = 10000, fl_tunnel = False,
      fl_tunnelType = ''dnstt'', fl_tunnelDomain = '''', fl_tunnelPubkey = '''',
      fl_tunnelListen = ''0.0.0.0:1080'', fl_tunnelBinary = ''slipnet'', fl_tunnelProfile = '''',
      fl_scanInterval = ''5m'', fl_scanMinScore = 3, fl_scanTop = 20, fl_scanWorkers = 200,
      fl_tunnelMTU = 512, fl_tunnelQuery = 0, fl_tunnelStealth = False, fl_noScan = False,
      fl_findnsBinary = ''findns''\<rparr>"

text \<open>A flag that may be repeated collects its values.\<close>

definition arrayFlags_Set :: "string \<Rightarrow> string list \<Rightarrow> string list" where
  "arrayFlags_Set value a = a @ [value]"

definition arrayFlags_String :: "string list \<Rightarrow> string" where
  "arrayFlags_String a = Join a '', ''"

subsection \<open>The resolvers\<close>

definition defaultDoHResolvers :: "string list" where
  "defaultDoHResolvers =
     [''https://dns.google/dns-query'',
      ''https://cloudflare-dns.com/dns-query'',
      ''https://doh.opendns.com/dns-query'',
      ''https://doh.cleanbrowsing.org/doh/security-filter'',
      ''https://dns.nextdns.io/dns-query'',
      ''https://doh.mullvad.net/dns-query'',
      ''https://dns0.eu/dns-query'',
      ''https://ordns.he.net/dns-query'',
      ''https://dns.quad9.net/dns-query'',
      ''https://dns.adguard-dns.com/dns-query'']"

definition doh_defaults :: "Resolver list" where
  "doh_defaults = map (\<lambda>u. \<lparr>Addr = '''', URL = u\<rparr>) defaultDoHResolvers"

text \<open>
  What the program finds: the files, its directory and the working directory, and \<open>filepath.Join\<close>.
\<close>

record os =
  os_fs :: file_system
  os_exeDir :: "string option"
  os_cwd :: "string option"
  os_join :: "string list \<Rightarrow> string"
  os_stat :: "string \<Rightarrow> int option"

datatype startup_error = E_ScanDomain | E_NoResolvers | E_ProfileFile | E_ProfileNoURI
  | E_Profile config_error | E_TunnelDomain | E_TunnelPubkey | E_ScanInterval

definition choose_resolvers :: "os \<Rightarrow> bool \<Rightarrow> Resolver list \<Rightarrow> startup_error + Resolver list" where
  "choose_resolvers os doh parsed =
     (if length parsed \<noteq> 0 then Inr parsed
      else if doh then Inr doh_defaults
      else (let parsed = tryLoadDefaultResolvers (os_join os) (os_fs os) (os_exeDir os) (os_cwd os) doh
            in if length parsed = 0 then Inl E_NoResolvers else Inr parsed))"

subsection \<open>The three modes\<close>

datatype run_mode = Run_scan "Resolver list" string bool | Run_tunnel flags "Resolver list" | Run_proxy flags "Resolver list"

definition scan_mode :: "flags \<Rightarrow> Resolver list \<Rightarrow> startup_error + run_mode" where
  "scan_mode f parsed =
     (if fl_scanDomain f = '''' then Inl E_ScanDomain
      else if length parsed = 0 then
        (if fl_doh f then Inr (Run_scan doh_defaults (fl_scanDomain f) (fl_doh f)) else Inl E_NoResolvers)
      else Inr (Run_scan parsed (fl_scanDomain f) (fl_doh f)))"

definition tunnel_listen :: "flags \<Rightarrow> flags" where
  "tunnel_listen f =
     (if fl_tunnel f \<and> fl_listen f = ''0.0.0.0:53'' then f\<lparr>fl_listen := ''127.0.0.1:53''\<rparr> else f)"

definition main_mode :: "os \<Rightarrow> flags \<Rightarrow> startup_error + run_mode" where
  "main_mode os f =
     (let parsed = parseResolvers (os_fs os) (fl_resolverFile f) (fl_resolvers f) (fl_doh f) in
      if fl_scan f then scan_mode f parsed
      else (let f = tunnel_listen f in
            if fl_tunnel f then Inr (Run_tunnel f parsed)
            else case choose_resolvers os (fl_doh f) parsed of Inl e \<Rightarrow> Inl e
                 | Inr parsed \<Rightarrow> Inr (Run_proxy f parsed)))"

subsection \<open>Proxy mode\<close>

text \<open>What the proxy mode starts, on one pool: its loops, and the watcher of the resolvers file.\<close>

record services =
  sv_pool :: pool
  sv_cache :: "DNSCache option"
  sv_listen :: string
  sv_tcp :: bool
  sv_cover :: "CoverTraffic option"
  sv_healthCheck :: bool
  sv_stats :: bool
  sv_reloader :: "reloader option"

definition flag_cache :: "flags \<Rightarrow> DNSCache option" where
  "flag_cache f = (if fl_cacheEnabled f then Some (NewDNSCache (fl_cacheSize f)) else None)"

definition flag_cover :: "(rat \<Rightarrow> int) \<Rightarrow> flags \<Rightarrow> CoverTraffic option" where
  "flag_cover oor f = (if fl_cover f then Some (NewCoverTraffic oor (fl_coverMin f) (fl_coverMax f)) else None)"

definition watch_file :: "os \<Rightarrow> flags \<Rightarrow> string" where
  "watch_file os f =
     (if fl_resolverFile f \<noteq> '''' then fl_resolverFile f
      else case os_exeDir os of None \<Rightarrow> ''''
           | Some dir \<Rightarrow> (let candidate = os_join os [dir, ''resolvers.txt'']
                          in if os_stat os candidate \<noteq> None then candidate else ''''))"

definition watcher :: "os \<Rightarrow> string \<Rightarrow> pool \<Rightarrow> bool \<Rightarrow> reloader option" where
  "watcher os watchFile pool doh =
     (if watchFile \<noteq> '''' then Some (Start_reloader (os_stat os) (NewResolverReloader watchFile pool doh)) else None)"

definition start_proxy :: "(string \<Rightarrow> bytes option) \<Rightarrow> (nat \<Rightarrow> transport) \<Rightarrow> nat list \<Rightarrow> (rat \<Rightarrow> int) \<Rightarrow> os \<Rightarrow> flags
    \<Rightarrow> Resolver list \<Rightarrow> services" where
  "start_proxy mkquery nets order oor os f parsed =
     (let pool = NewResolverPool parsed (fl_mode f) (fl_doh f);
          pool = (if \<not> fl_noAutoSelect f
                  then NewResolverPool (ProbeResolvers mkquery nets order pool) (fl_mode f) (fl_doh f) else pool)
      in \<lparr>sv_pool = pool, sv_cache = flag_cache f, sv_listen = fl_listen f, sv_tcp = fl_tcp f,
          sv_cover = flag_cover oor f, sv_healthCheck = fl_healthCheck f, sv_stats = fl_stats f,
          sv_reloader = watcher os (watch_file os f) pool (fl_doh f)\<rparr>)"

subsection \<open>Tunnel mode: what it is asked for\<close>

record tunnel_setup =
  ts_uri :: string
  ts_profile :: "SlipNetProfile option"
  ts_domain :: string
  ts_pubkey :: string
  ts_type :: string
  ts_scanDomain :: string
  ts_resolvers :: "Resolver list"
  ts_interval :: int

text \<open>The profile is a URI or a file whose first line that begins with the scheme is one.\<close>

definition profile_uri :: "os \<Rightarrow> string \<Rightarrow> startup_error + string" where
  "profile_uri os profile =
     (if profile \<noteq> '''' \<and> \<not> HasPrefix profile scheme then
        (case os_fs os profile of None \<Rightarrow> Inl E_ProfileFile
         | Some data \<Rightarrow>
             (case find (\<lambda>line. HasPrefix line scheme) (map TrimSpace (Split data (CHR 0x0A))) of
                None \<Rightarrow> Inl E_ProfileNoURI | Some line \<Rightarrow> Inr line))
      else Inr profile)"

definition parse_profile :: "string \<Rightarrow> startup_error + SlipNetProfile option" where
  "parse_profile uri =
     (if uri = '''' then Inr None
      else case ParseSlipNetURI uri of Inl e \<Rightarrow> Inl (E_Profile e) | Inr p \<Rightarrow> Inr (Some p))"

text \<open>A flag that was given wins over the profile, except that the type \<open>dnstt\<close> counts as not given.\<close>

definition from_profile :: "string \<Rightarrow> (SlipNetProfile \<Rightarrow> string) \<Rightarrow> SlipNetProfile option \<Rightarrow> string \<Rightarrow> string" where
  "from_profile unset get profile flag =
     (case profile of None \<Rightarrow> flag | Some p \<Rightarrow> if flag = unset then get p else flag)"

definition resolve_tunnel :: "os \<Rightarrow> flags \<Rightarrow> Resolver list \<Rightarrow> startup_error + tunnel_setup" where
  "resolve_tunnel os f parsed =
     (case profile_uri os (fl_tunnelProfile f) of Inl e \<Rightarrow> Inl e
      | Inr uri \<Rightarrow>
     (case parse_profile uri of Inl e \<Rightarrow> Inl e
      | Inr profile \<Rightarrow>
          (let domain = from_profile '''' Domain profile (fl_tunnelDomain f);
               pubkey = from_profile '''' PublicKey profile (fl_tunnelPubkey f);
               tunnelType = from_profile ''dnstt'' DisplayTunnelType profile (fl_tunnelType f);
               scanDomain = (if fl_scanDomain f = '''' then domain else fl_scanDomain f)
           in if domain = '''' then Inl E_TunnelDomain
              else if pubkey = '''' then Inl E_TunnelPubkey
              else case choose_resolvers os (fl_doh f) parsed of Inl e \<Rightarrow> Inl e
              | Inr resolvers \<Rightarrow>
                  (case ParseDuration (fl_scanInterval f) of None \<Rightarrow> Inl E_ScanInterval
                   | Some interval \<Rightarrow>
                       Inr \<lparr>ts_uri = uri, ts_profile = profile, ts_domain = domain, ts_pubkey = pubkey,
                            ts_type = tunnelType, ts_scanDomain = scanDomain, ts_resolvers = resolvers,
                            ts_interval = interval\<rparr>))))"

subsection \<open>Tunnel mode: what it makes of it\<close>

text \<open>The bundled \<open>findns\<close> is unpacked unless another binary was named; the scanner is used when it can be run.\<close>

definition findns_binary :: "extract_sys \<Rightarrow> flags \<Rightarrow> disk \<Rightarrow> (string \<times> string) \<times> disk" where
  "findns_binary x f d =
     (if fl_findnsBinary f = ''findns'' then
        (case extractEmbeddedFindns x d of
           ((path, dir), d) \<Rightarrow> if path \<noteq> '''' then ((path, dir), d) else ((fl_findnsBinary f, ''''), d))
      else ((fl_findnsBinary f, ''''), d))"

definition findns_scanner :: "(string \<Rightarrow> bool) \<Rightarrow> string \<Rightarrow> flags \<Rightarrow> tunnel_setup \<Rightarrow> FindNSScanner option" where
  "findns_scanner lookPath binary f ts =
     (let fs = \<lparr>f_Binary = binary, f_Domain = ts_scanDomain ts, f_Pubkey = ts_pubkey ts, f_DoH = fl_doh f,
                f_Workers = 10, f_TopN = fl_scanTop f\<rparr>
      in if IsAvailable lookPath fs then Some fs else None)"

definition tunnel_pool :: "flags \<Rightarrow> tunnel_setup \<Rightarrow> pool" where
  "tunnel_pool f ts = snd (SetHealthDomain (ts_scanDomain ts) (NewResolverPool (ts_resolvers ts) (fl_mode f) (fl_doh f)))"

definition auto_scanner :: "flags \<Rightarrow> FindNSScanner option \<Rightarrow> tunnel_setup \<Rightarrow> pool \<Rightarrow> autoscan" where
  "auto_scanner f findns ts pool =
     (let pubkeyBytes = (case hex_DecodeString (ts_pubkey ts) of Some decoded \<Rightarrow> decoded | None \<Rightarrow> []);
          as = NewAutoScanner pool (ts_resolvers ts) (ts_scanDomain ts) (fl_doh f) pubkeyBytes (ts_interval ts)
                 (fl_scanTop f) 5000 (fl_scanWorkers f)
      in case findns of None \<Rightarrow> as | Some fs \<Rightarrow> SetFindNS fs (fl_resolverFile f) as)"

definition slipnet_binary :: "extract_sys \<Rightarrow> flags \<Rightarrow> disk \<Rightarrow> (string \<times> string) \<times> disk" where
  "slipnet_binary x f d =
     (if fl_tunnelBinary f = ''slipnet'' then
        (case extractEmbeddedSlipnet x d of
           ((path, dir), d) \<Rightarrow> if path \<noteq> '''' then ((path, dir), d) else ((fl_tunnelBinary f, ''''), d))
      else ((fl_tunnelBinary f, ''''), d))"

definition tunnel_config :: "flags \<Rightarrow> tunnel_setup \<Rightarrow> string \<Rightarrow> TunnelConfig" where
  "tunnel_config f ts binary =
     (let cfg = \<lparr>tc_Binary = binary, tc_Profile = ts_uri ts, tc_Domain = ts_domain ts, tc_PublicKey = ts_pubkey ts,
                 tc_TunnelType = ts_type ts, tc_ListenAddr = fl_tunnelListen f, tc_DNSAddr = fl_listen f,
                 tc_MTU = fl_tunnelMTU f, tc_QuerySize = fl_tunnelQuery f, tc_Stealth = fl_tunnelStealth f,
                 tc_SSHEnabled = False, tc_SSHUsername = '''', tc_SSHPassword = '''', tc_SSHPort = 0\<rparr>
      in case ts_profile ts of None \<Rightarrow> cfg
         | Some p \<Rightarrow>
             if IsSSH p then cfg\<lparr>tc_SSHEnabled := True, tc_SSHUsername := SSHUsername p,
                                 tc_SSHPassword := SSHPassword p, tc_SSHPort := SSHPort p\<rparr>
             else cfg)"

end
