(* ===== verification/Tunnel.thy ===== *)
theory Tunnel
  imports TunnelArgs "HOL-Library.Multiset"
begin

text \<open>
  \<open>tunnel.go\<close>, the process manager: the tunnel client and the optional SSH client are child
  processes; a monitor goroutine waits for each and starts it again; \<open>Stop\<close> ends them. The methods
  are functions on the manager's state, the goroutines steps of a relation between such states.
\<close>

subsection \<open>Processes and goroutines\<close>

datatype proc_kind = TunnelProc | SSHProc

record proc =
  pr_kind :: proc_kind
  pr_args :: "string list"
  pr_alive :: bool

text \<open>
  Where a monitor goroutine is. \<open>monitorTunnel\<close> waits for its process, then asks for the SSH
  process to be ended, waits for that, sleeps, and restarts; \<open>monitorSSH\<close> waits, sleeps, restarts.
\<close>

datatype monitor =
    TunnelWait nat
  | TunnelStopSSH
  | TunnelKillSSH nat
  | TunnelSleep
  | SSHWait nat
  | SSHSleep

text \<open>
  A process is a position in \<open>tm_procs\<close>. \<open>tm_files\<close> is the temporary directory as far as the
  manager writes to it, \<open>tm_tmpPath\<close> the name it uses there, made of the process id; \<open>tm_reaper\<close> holds the processes a running \<open>Stop\<close> has still to end.
\<close>

record tm =
  tm_config :: TunnelConfig
  tm_tunnelCmd :: "nat option"
  tm_sshCmd :: "nat option"
  tm_stopped :: bool
  tm_tunnelPort :: string
  tm_askpassPath :: string
  tm_procs :: "proc list"
  tm_tmpPath :: string
  tm_files :: "string \<rightharpoonup> string"
  tm_monitors :: "monitor multiset"
  tm_reaper :: "nat list option"

definition NewTunnelManager :: "string \<Rightarrow> TunnelConfig \<Rightarrow> tm" where
  "NewTunnelManager path c =
     \<lparr>tm_config = default_config c, tm_tunnelCmd = None, tm_sshCmd = None, tm_stopped = False,
      tm_tunnelPort = '''', tm_askpassPath = '''', tm_procs = [], tm_tmpPath = path, tm_files = Map.empty,
      tm_monitors = {#}, tm_reaper = None\<rparr>"

subsection \<open>Starting\<close>

text \<open>
  Waiting for the tunnel client to listen. The \<open>i\<close>-th turn of the loop dials for some time, and either connects or
  sleeps; what a sleep lasts beyond its half second is counted with the dial. The result has the number of dials and the
  time that passed.
\<close>

definition retryDelay :: nat where "retryDelay = 500000000"

function wait_dials :: "nat \<Rightarrow> (nat \<Rightarrow> nat \<times> bool) \<Rightarrow> nat \<Rightarrow> nat \<Rightarrow> bool \<times> nat \<times> nat" where
  "wait_dials deadline dial i now =
     (if now < deadline then
        (case dial i of (took, ok) \<Rightarrow>
           if ok then (True, Suc i, now + took) else wait_dials deadline dial (Suc i) (now + took + retryDelay))
      else (False, i, now))"
  by pat_completeness auto

termination
  by (relation "measure (\<lambda>(deadline, dial, i, now). deadline - now)") (auto simp: retryDelay_def)

definition waitForPort :: "(nat \<Rightarrow> nat \<times> bool) \<Rightarrow> nat \<Rightarrow> bool \<times> nat \<times> nat" where
  "waitForPort dial timeout = wait_dials timeout dial 0 0"

declare wait_dials.simps [simp del]

subsection \<open>Processes\<close>

definition alive :: "tm \<Rightarrow> nat \<Rightarrow> bool" where
  "alive tm cmd \<longleftrightarrow> cmd < length (tm_procs tm) \<and> pr_alive (tm_procs tm ! cmd)"

definition exits :: "nat \<Rightarrow> tm \<Rightarrow> tm" where
  "exits cmd tm = (if cmd < length (tm_procs tm)
     then tm\<lparr>tm_procs := (tm_procs tm)[cmd := (tm_procs tm ! cmd)\<lparr>pr_alive := False\<rparr>]\<rparr> else tm)"

text \<open>
  The answers of the operating system to one start. The start holds the manager's mutex while it waits for the tunnel
  client, but the client itself may end in that time (\<open>sys_clientEnds\<close>); its monitor then waits for the mutex.
\<close>

record sys =
  sys_LookPath :: "string \<Rightarrow> bool"
  sys_Start :: "string list \<Rightarrow> bool"
  sys_freePort :: "nat option"
  sys_dial :: "nat \<Rightarrow> nat \<times> bool"
  sys_clientEnds :: bool
  sys_WriteFile :: bool

datatype tm_error = AlreadyRunning | BinaryNotFound | NoFreePort | TunnelStartFailed
  | NotListening | AskpassFailed | SSHStartFailed

definition spawn :: "proc_kind \<Rightarrow> string list \<Rightarrow> tm \<Rightarrow> tm" where
  "spawn k args tm = tm\<lparr>tm_procs := tm_procs tm @ [\<lparr>pr_kind = k, pr_args = args, pr_alive = True\<rparr>]\<rparr>"

definition startDirect :: "sys \<Rightarrow> tm \<Rightarrow> tm_error option \<times> tm" where
  "startDirect sys tm =
     (let args = tc_Binary (tm_config tm) # buildSlipnetArgs (tm_config tm) (tc_ListenAddr (tm_config tm));
          cmd = length (tm_procs tm)
      in if \<not> sys_Start sys args then (Some TunnelStartFailed, tm)
         else (None, (spawn TunnelProc args tm)\<lparr>tm_tunnelCmd := Some cmd,
                       tm_monitors := add_mset (TunnelWait cmd) (tm_monitors tm)\<rparr>))"

definition ssh_args :: "TunnelConfig \<Rightarrow> string \<Rightarrow> string list" where
  "ssh_args c tunnelPort =
     [''-N'', ''-D'', tc_ListenAddr c, ''-p'', tunnelPort,
      ''-o'', ''StrictHostKeyChecking=no'', ''-o'', ''UserKnownHostsFile=/dev/null'',
      ''-o'', ''ServerAliveInterval=30'', ''-o'', ''ServerAliveCountMax=3'',
      ''-o'', ''ExitOnForwardFailure=yes'', ''-o'', ''ConnectTimeout=30'',
      tc_SSHUsername c @ ''@127.0.0.1'']"

definition quote_char :: char where "quote_char = CHR 0x27"
definition backslash :: char where "backslash = CHR 0x5C"

definition escapedPass :: "string \<Rightarrow> string" where
  "escapedPass pw = concat (map (\<lambda>c. if c = quote_char
                                     then [quote_char, backslash, quote_char, quote_char] else [c]) pw)"

definition askpass_head :: string where
  "askpass_head = ''#!/bin/sh'' @ [CHR 0x0A] @ ''printf '' @ [quote_char] @ ''%s'' @ [backslash, CHR ''n'', quote_char, CHR '' '']"

definition askpass_script :: "string \<Rightarrow> string" where
  "askpass_script pw = askpass_head @ [quote_char] @ escapedPass pw @ [quote_char, CHR 0x0A]"

text \<open>
  The password goes to the helper \<open>sshpass\<close>, or into a script whose path is remembered.
\<close>

definition prepare_ssh :: "sys \<Rightarrow> string list \<Rightarrow> tm \<Rightarrow> tm_error + (string list \<times> tm)" where
  "prepare_ssh sys args tm =
     (if sys_LookPath sys ''sshpass'' then
        Inr ([''sshpass'', ''-p'', tc_SSHPassword (tm_config tm), ''ssh''] @ args, tm)
      else if \<not> sys_WriteFile sys then Inl AskpassFailed
      else Inr (''ssh'' # args,
                tm\<lparr>tm_files := (tm_files tm)(tm_tmpPath tm \<mapsto> askpass_script (tc_SSHPassword (tm_config tm))),
                   tm_askpassPath := tm_tmpPath tm\<rparr>))"

definition startSSH :: "sys \<Rightarrow> string \<Rightarrow> tm \<Rightarrow> tm_error option \<times> tm" where
  "startSSH sys tunnelAddr tm =
     (let tunnelPort = (case SplitHostPort tunnelAddr of None \<Rightarrow> '''' | Some (_, port) \<Rightarrow> port);
          args = ssh_args (tm_config tm) tunnelPort
      in case prepare_ssh sys args tm of Inl e \<Rightarrow> (Some e, tm)
         | Inr (cmdline, tm1) \<Rightarrow>
             (let cmd = length (tm_procs tm1) in
              if \<not> sys_Start sys cmdline then (Some SSHStartFailed, tm1)
              else (None, (spawn SSHProc cmdline tm1)\<lparr>tm_sshCmd := Some cmd,
                            tm_monitors := add_mset (SSHWait cmd) (tm_monitors tm1)\<rparr>)))"

definition startWithSSH :: "sys \<Rightarrow> tm \<Rightarrow> tm_error option \<times> tm" where
  "startWithSSH sys tm =
     (case sys_freePort sys of None \<Rightarrow> (Some NoFreePort, tm)
      | Some port \<Rightarrow>
          (let tm1 = tm\<lparr>tm_tunnelPort := Itoa (int port)\<rparr>;
               internalAddr = ''127.0.0.1:'' @ Itoa (int port);
               args = tc_Binary (tm_config tm) # buildSlipnetArgs (tm_config tm) internalAddr;
               cmd = length (tm_procs tm1)
           in if \<not> sys_Start sys args then (Some TunnelStartFailed, tm1)
              else (let tm2 = (spawn TunnelProc args tm1)\<lparr>tm_tunnelCmd := Some cmd,
                                 tm_monitors := add_mset (TunnelWait cmd) (tm_monitors tm1)\<rparr>;
                        tm3 = (if sys_clientEnds sys then exits cmd tm2 else tm2)
                    in if \<not> fst (waitForPort (sys_dial sys) 30000000000) then (Some NotListening, tm3)
                       else startSSH sys internalAddr tm3)))"

definition startLocked :: "sys \<Rightarrow> tm \<Rightarrow> tm_error option \<times> tm" where
  "startLocked sys tm = (if tc_SSHEnabled (tm_config tm) then startWithSSH sys tm else startDirect sys tm)"

definition Start :: "sys \<Rightarrow> tm \<Rightarrow> tm_error option \<times> tm" where
  "Start sys tm =
     (if tm_tunnelCmd tm \<noteq> None then (Some AlreadyRunning, tm)
      else if \<not> sys_LookPath sys (tc_Binary (tm_config tm)) then (Some BinaryNotFound, tm)
      else startLocked sys tm)"

subsection \<open>Monitoring and stopping\<close>

definition leave :: "monitor \<Rightarrow> tm \<Rightarrow> tm" where
  "leave m tm = tm\<lparr>tm_monitors := tm_monitors tm - {#m#}\<rparr>"

definition become :: "monitor \<Rightarrow> monitor \<Rightarrow> tm \<Rightarrow> tm" where
  "become m m' tm = tm\<lparr>tm_monitors := add_mset m' (tm_monitors tm - {#m#})\<rparr>"

text \<open>
  \<open>monitorTunnel\<close>: the section after \<open>Wait\<close>, the three stages of \<open>stopSSH\<close>, and the section
  after the sleep.
\<close>

definition tunnel_exited :: "nat \<Rightarrow> tm \<Rightarrow> tm" where
  "tunnel_exited cmd tm =
     (let tm1 = (if tm_tunnelCmd tm = Some cmd then tm\<lparr>tm_tunnelCmd := None\<rparr> else tm)
      in if tm_stopped tm1 then leave (TunnelWait cmd) tm1
         else become (TunnelWait cmd) TunnelStopSSH tm1)"

definition stopSSH_signal :: "tm \<Rightarrow> tm" where
  "stopSSH_signal tm =
     (case tm_sshCmd tm of None \<Rightarrow> become TunnelStopSSH TunnelSleep tm
      | Some cmd \<Rightarrow> become TunnelStopSSH (TunnelKillSSH cmd) tm)"

definition tunnel_restart :: "sys \<Rightarrow> tm \<Rightarrow> tm" where
  "tunnel_restart sys tm =
     (let tm1 = leave TunnelSleep tm
      in if tm_stopped tm1 \<or> tm_tunnelCmd tm1 \<noteq> None then tm1 else snd (startLocked sys tm1))"

definition ssh_exited :: "nat \<Rightarrow> tm \<Rightarrow> tm" where
  "ssh_exited cmd tm =
     (let tm1 = (if tm_sshCmd tm = Some cmd then tm\<lparr>tm_sshCmd := None\<rparr> else tm)
      in if tm_stopped tm1 then leave (SSHWait cmd) tm1 else become (SSHWait cmd) SSHSleep tm1)"

definition ssh_restart :: "sys \<Rightarrow> tm \<Rightarrow> tm" where
  "ssh_restart sys tm =
     (let tm1 = leave SSHSleep tm
      in if tm_stopped tm1 \<or> tm_sshCmd tm1 \<noteq> None \<or> tm_tunnelCmd tm1 = None then tm1
         else snd (startSSH sys (''127.0.0.1:'' @ tm_tunnelPort tm1) tm1))"

definition opt_list :: "'a option \<Rightarrow> 'a list" where
  "opt_list x = (case x of None \<Rightarrow> [] | Some a \<Rightarrow> [a])"

definition stop_begin :: "tm \<Rightarrow> tm" where
  "stop_begin tm = tm\<lparr>tm_stopped := True, tm_reaper := Some (opt_list (tm_sshCmd tm) @ opt_list (tm_tunnelCmd tm))\<rparr>"

definition stop_end :: "tm \<Rightarrow> tm" where
  "stop_end tm = (if tm_askpassPath tm \<noteq> '''' then tm\<lparr>tm_files := (tm_files tm)(tm_askpassPath tm := None)\<rparr> else tm)"

definition IsRunning :: "tm \<Rightarrow> bool" where
  "IsRunning tm \<longleftrightarrow> tm_tunnelCmd tm \<noteq> None"

text \<open>
  The moves of the system: a process exits by itself or on a signal; a monitor passes its next
  critical section; \<open>stopSSH\<close> and \<open>Stop\<close> wait for the process they signalled and kill it when the
  wait times out, so both go on only once it is dead.
\<close>

inductive tm_step :: "tm \<Rightarrow> tm \<Rightarrow> bool" where
  exit: "alive tm cmd \<Longrightarrow> tm_step tm (exits cmd tm)"
| tunnel_down: "TunnelWait cmd \<in># tm_monitors tm \<Longrightarrow> \<not> alive tm cmd \<Longrightarrow> tm_step tm (tunnel_exited cmd tm)"
| signal_ssh: "TunnelStopSSH \<in># tm_monitors tm \<Longrightarrow> tm_step tm (stopSSH_signal tm)"
| kill_ssh: "TunnelKillSSH cmd \<in># tm_monitors tm \<Longrightarrow> tm_step tm (become (TunnelKillSSH cmd) TunnelSleep (exits cmd tm))"
| restart_tunnel: "TunnelSleep \<in># tm_monitors tm \<Longrightarrow> tm_step tm (tunnel_restart sys tm)"
| ssh_down: "SSHWait cmd \<in># tm_monitors tm \<Longrightarrow> \<not> alive tm cmd \<Longrightarrow> tm_step tm (ssh_exited cmd tm)"
| restart_ssh: "SSHSleep \<in># tm_monitors tm \<Longrightarrow> tm_step tm (ssh_restart sys tm)"
| stop: "tm_reaper tm = None \<Longrightarrow> tm_step tm (stop_begin tm)"
| reap: "tm_reaper tm = Some (cmd # cmds) \<Longrightarrow> tm_step tm ((exits cmd tm)\<lparr>tm_reaper := Some cmds\<rparr>)"
| stopped: "tm_reaper tm = Some [] \<Longrightarrow> tm_step tm (stop_end tm)"

text \<open>The program creates a manager, starts it once, and lets it run.\<close>

inductive tm_reachable :: "tm \<Rightarrow> bool" where
  start: "path \<noteq> '''' \<Longrightarrow> tm_reachable (snd (Start sys (NewTunnelManager path c)))"
| step: "tm_reachable tm \<Longrightarrow> tm_step tm tm' \<Longrightarrow> tm_reachable tm'"

end
