(* ===== verification/TunnelSpec.thy ===== *)
theory TunnelSpec
  imports Tunnel
begin

text \<open>
  Correctness of the process manager: what holds in every reachable state, what \<open>Stop\<close> leaves
  behind, when the manager gives up, and the quoting of the password script.
\<close>

subsection \<open>The invariant\<close>

fun is_tmon :: "monitor \<Rightarrow> bool" where
  "is_tmon (SSHWait _) = False"
| "is_tmon SSHSleep = False"
| "is_tmon _ = True"

definition alive_of :: "tm \<Rightarrow> proc_kind \<Rightarrow> nat \<Rightarrow> bool" where
  "alive_of tm k c \<longleftrightarrow> alive tm c \<and> pr_kind (tm_procs tm ! c) = k"

definition tmons :: "tm \<Rightarrow> monitor multiset" where
  "tmons tm = filter_mset is_tmon (tm_monitors tm)"

definition tm_inv :: "tm \<Rightarrow> bool" where
  "tm_inv tm \<longleftrightarrow>
     (\<forall>c. alive_of tm TunnelProc c \<longrightarrow> tm_tunnelCmd tm = Some c) \<and>
     (\<forall>c. alive_of tm SSHProc c \<longrightarrow> tm_sshCmd tm = Some c) \<and>
     (\<forall>c. tm_tunnelCmd tm = Some c \<longleftrightarrow> TunnelWait c \<in># tm_monitors tm) \<and>
     size (tmons tm) \<le> 1 \<and>
     (TunnelSleep \<in># tm_monitors tm \<longrightarrow> (\<forall>c. \<not> alive_of tm SSHProc c)) \<and>
     (\<forall>c d. TunnelKillSSH d \<in># tm_monitors tm \<longrightarrow> alive_of tm SSHProc c \<longrightarrow> c = d) \<and>
     (tm_reaper tm = None \<longleftrightarrow> \<not> tm_stopped tm) \<and>
     (\<forall>l c. tm_reaper tm = Some l \<longrightarrow> alive tm c \<longrightarrow> c \<in> set l)"

lemma filter_mset_none: "filter_mset P M = {#} \<longleftrightarrow> (\<forall>x \<in># M. \<not> P x)"
  by (induction M) auto

lemma tm_invD:
  assumes "tm_inv tm"
  shows "alive_of tm TunnelProc c \<Longrightarrow> tm_tunnelCmd tm = Some c"
    "alive_of tm SSHProc c \<Longrightarrow> tm_sshCmd tm = Some c"
    "tm_tunnelCmd tm = Some c \<longleftrightarrow> TunnelWait c \<in># tm_monitors tm"
    "size (tmons tm) \<le> 1"
    "TunnelSleep \<in># tm_monitors tm \<Longrightarrow> \<not> alive_of tm SSHProc c"
    "TunnelKillSSH d \<in># tm_monitors tm \<Longrightarrow> alive_of tm SSHProc c \<Longrightarrow> c = d"
    "tm_reaper tm = None \<longleftrightarrow> \<not> tm_stopped tm"
    "tm_reaper tm = Some l \<Longrightarrow> alive tm c \<Longrightarrow> c \<in> set l"
  using assms unfolding tm_inv_def by blast+

lemma tm_invI:
  assumes "\<And>c. alive_of tm TunnelProc c \<Longrightarrow> tm_tunnelCmd tm = Some c"
    "\<And>c. alive_of tm SSHProc c \<Longrightarrow> tm_sshCmd tm = Some c"
    "\<And>c. tm_tunnelCmd tm = Some c \<longleftrightarrow> TunnelWait c \<in># tm_monitors tm"
    "size (tmons tm) \<le> 1"
    "\<And>c. TunnelSleep \<in># tm_monitors tm \<Longrightarrow> \<not> alive_of tm SSHProc c"
    "\<And>c d. TunnelKillSSH d \<in># tm_monitors tm \<Longrightarrow> alive_of tm SSHProc c \<Longrightarrow> c = d"
    "tm_reaper tm = None \<longleftrightarrow> \<not> tm_stopped tm"
    "\<And>l c. tm_reaper tm = Some l \<Longrightarrow> alive tm c \<Longrightarrow> c \<in> set l"
  shows "tm_inv tm"
  using assms unfolding tm_inv_def by blast

lemma tmons_only:
  assumes "tm_inv tm" and "m \<in># tm_monitors tm" and "is_tmon m"
  shows "tmons tm = {#m#}"
proof -
  have "m \<in># tmons tm" using assms by (simp add: tmons_def)
  then obtain M where "tmons tm = add_mset m M" by (auto dest: multi_member_split)
  with tm_invD(4) [OF assms(1)] show ?thesis by simp
qed

lemma tmon_unique:
  assumes "tm_inv tm" and "m \<in># tm_monitors tm" "is_tmon m" and "m' \<in># tm_monitors tm" "is_tmon m'"
  shows "m' = m"
  using tmons_only [OF assms(1-3)] tmons_only [OF assms(1,4,5)] by simp

text \<open>Once the tunnel's monitor is past its wait, no tunnel process is held.\<close>

lemma past_wait:
  assumes "tm_inv tm" and "m \<in># tm_monitors tm" "is_tmon m" and "\<forall>c. m \<noteq> TunnelWait c"
  shows "tm_tunnelCmd tm = None"
proof (rule ccontr)
  assume "tm_tunnelCmd tm \<noteq> None"
  then obtain c where "TunnelWait c \<in># tm_monitors tm" using tm_invD(3) [OF assms(1)] by auto
  then have "TunnelWait c = m" using tmon_unique [OF assms(1-3)] by simp
  with assms(4) show False by blast
qed

subsection \<open>Elementary changes\<close>

lemma alive_cong: "tm_procs tm = tm_procs tm' \<Longrightarrow> alive tm c = alive tm' c \<and> alive_of tm k c = alive_of tm' k c"
  by (simp add: alive_def alive_of_def)

lemma alive_spawn:
  "tm_procs tm' = tm_procs tm @ [\<lparr>pr_kind = k, pr_args = a, pr_alive = True\<rparr>] \<Longrightarrow>
   (alive tm' c \<longleftrightarrow> alive tm c \<or> c = length (tm_procs tm)) \<and>
   (alive_of tm' k' c \<longleftrightarrow> alive_of tm k' c \<or> (c = length (tm_procs tm) \<and> k' = k))"
  by (auto simp: alive_def alive_of_def nth_append less_Suc_eq)

lemma exits_simps [simp]:
  "tm_tunnelCmd (exits c tm) = tm_tunnelCmd tm" "tm_sshCmd (exits c tm) = tm_sshCmd tm"
  "tm_monitors (exits c tm) = tm_monitors tm" "tm_stopped (exits c tm) = tm_stopped tm"
  "tm_reaper (exits c tm) = tm_reaper tm" "length (tm_procs (exits c tm)) = length (tm_procs tm)"
  by (simp_all add: exits_def)

lemma alive_exits [simp]:
  "alive (exits c tm) d \<longleftrightarrow> alive tm d \<and> d \<noteq> c"
  "alive_of (exits c tm) k d \<longleftrightarrow> alive_of tm k d \<and> d \<noteq> c"
  by (auto simp: exits_def alive_def alive_of_def nth_list_update)

lemma tmons_cong: "tm_monitors tm = tm_monitors tm' \<Longrightarrow> tmons tm = tmons tm'"
  by (simp add: tmons_def)

lemma exits_inv: "tm_inv tm \<Longrightarrow> tm_inv (exits c tm)"
  by (rule tm_invI) (auto dest: tm_invD simp: tmons_cong [OF exits_simps(3)])

text \<open>A monitor changes its place, or leaves; the held commands change with it.\<close>

lemma tmons_leave: "m \<in># tm_monitors tm \<Longrightarrow> is_tmon m \<Longrightarrow> tm_inv tm \<Longrightarrow>
    filter_mset is_tmon (tm_monitors tm - {#m#}) = {#}"
  using tmons_only [of tm m] by (simp add: tmons_def filter_diff_mset)

lemma no_tmon_left: "m \<in># tm_monitors tm \<Longrightarrow> is_tmon m \<Longrightarrow> tm_inv tm \<Longrightarrow> is_tmon m' \<Longrightarrow>
    m' \<notin># tm_monitors tm - {#m#}"
proof
  assume m: "m \<in># tm_monitors tm" "is_tmon m" "tm_inv tm"
  assume "is_tmon m'" and "m' \<in># tm_monitors tm - {#m#}"
  then have "m' \<in># filter_mset is_tmon (tm_monitors tm - {#m#})" by (simp only: set_mset_filter mem_Collect_eq simp_thms)
  then show False unfolding tmons_leave [OF m] by simp
qed

lemma tmon_move_inv:
  assumes "tm_inv tm" and m: "m \<in># tm_monitors tm" "is_tmon m"
    and "tm_monitors tm' = tm_monitors tm - {#m#} + N" "size N \<le> 1"
    and "\<forall>c. TunnelWait c \<notin># N"
    and "TunnelSleep \<in># N \<Longrightarrow> \<forall>c. \<not> alive_of tm' SSHProc c"
    and "\<forall>c d. TunnelKillSSH d \<in># N \<longrightarrow> alive_of tm' SSHProc c \<longrightarrow> c = d"
    and "tm_tunnelCmd tm' = None" "\<forall>c. \<not> alive_of tm' TunnelProc c"
    and "tm_sshCmd tm' = tm_sshCmd tm" "tm_reaper tm' = tm_reaper tm" "tm_stopped tm' = tm_stopped tm"
    and "\<forall>c. alive tm' c \<longrightarrow> alive tm c" "\<forall>c. alive_of tm' SSHProc c \<longrightarrow> alive_of tm SSHProc c"
  shows "tm_inv tm'"
proof (rule tm_invI)
  have mem: "m' \<in># tm_monitors tm' \<longleftrightarrow> m' \<in># N" if "is_tmon m'" for m'
    using no_tmon_left [OF m assms(1) that] unfolding assms(4) union_iff by blast
  have "size (filter_mset is_tmon N) \<le> size N" by (rule size_filter_mset_lesseq)
  then show "size (tmons tm') \<le> 1"
    using assms(5) by (simp only: tmons_def assms(4) filter_union_mset tmons_leave [OF m assms(1)] add_0)
  show "tm_tunnelCmd tm' = Some c \<longleftrightarrow> TunnelWait c \<in># tm_monitors tm'" for c
    using assms(6,9) mem by simp
  show "TunnelSleep \<in># tm_monitors tm' \<Longrightarrow> \<not> alive_of tm' SSHProc c" for c
    using assms(7) mem by simp
  show "TunnelKillSSH d \<in># tm_monitors tm' \<Longrightarrow> alive_of tm' SSHProc c \<Longrightarrow> c = d" for c d
    using assms(8) mem by simp
  show "alive_of tm' SSHProc c \<Longrightarrow> tm_sshCmd tm' = Some c" for c
    using assms(11,15) tm_invD(2) [OF assms(1)] by simp
  show "tm_reaper tm' = None \<longleftrightarrow> \<not> tm_stopped tm'"
    using assms(12,13) tm_invD(7) [OF assms(1)] by simp
  show "tm_reaper tm' = Some l \<Longrightarrow> alive tm' c \<Longrightarrow> c \<in> set l" for l c
    using assms(12,14) tm_invD(8) [OF assms(1)] by simp
qed (use assms(10) in simp)

lemma smon_move_inv:
  assumes "tm_inv tm" and "m \<in># tm_monitors tm" "\<not> is_tmon m"
    and "tm_monitors tm' = tm_monitors tm - {#m#} + N" "\<forall>m \<in># N. \<not> is_tmon m"
    and "tm_procs tm' = tm_procs tm" "tm_tunnelCmd tm' = tm_tunnelCmd tm"
    and "\<forall>c. alive_of tm SSHProc c \<longrightarrow> tm_sshCmd tm' = Some c"
    and "tm_reaper tm' = tm_reaper tm" "tm_stopped tm' = tm_stopped tm"
  shows "tm_inv tm'"
proof -
  have mem: "m' \<in># tm_monitors tm' \<longleftrightarrow> m' \<in># tm_monitors tm" if "is_tmon m'" for m'
  proof -
    have "m' \<noteq> m" using that assms(3) by blast
    then have "m' \<in># tm_monitors tm - {#m#} \<longleftrightarrow> m' \<in># tm_monitors tm" by (simp add: in_diff_count)
    then show ?thesis using that assms(5) unfolding assms(4) union_iff by blast
  qed
  have "filter_mset is_tmon N = {#}" using assms(5) by (simp add: filter_mset_none)
  then have "tmons tm' = tmons tm"
    unfolding tmons_def assms(4) using assms(3) by (simp add: filter_diff_mset del: subset_mset.add_diff_assoc2)
  moreover have "alive tm' c = alive tm c \<and> alive_of tm' k c = alive_of tm k c" for k c
    by (rule alive_cong [OF assms(6)])
  ultimately show ?thesis
    using assms(1,7-10) by (simp add: tm_inv_def mem)
qed

lemma tm_inv_cong:
  assumes "tm_tunnelCmd tm' = tm_tunnelCmd tm" "tm_sshCmd tm' = tm_sshCmd tm" "tm_stopped tm' = tm_stopped tm"
    "tm_procs tm' = tm_procs tm" "tm_monitors tm' = tm_monitors tm" "tm_reaper tm' = tm_reaper tm"
  shows "tm_inv tm' = tm_inv tm"
  using assms alive_cong [OF assms(4)] tmons_cong [OF assms(5)] by (simp add: tm_inv_def)

lemma spawn_ssh_inv:
  assumes "tm_inv tm" "\<not> tm_stopped tm" "\<forall>c. \<not> alive_of tm SSHProc c"
    and "TunnelSleep \<notin># tm_monitors tm" "\<forall>d. TunnelKillSSH d \<notin># tm_monitors tm"
    and p: "tm_procs tm' = tm_procs tm @ [\<lparr>pr_kind = SSHProc, pr_args = a, pr_alive = True\<rparr>]"
    and "tm_sshCmd tm' = Some (length (tm_procs tm))"
    and "tm_monitors tm' = add_mset (SSHWait (length (tm_procs tm))) (tm_monitors tm)"
    and "tm_tunnelCmd tm' = tm_tunnelCmd tm" "tm_reaper tm' = tm_reaper tm" "tm_stopped tm' = tm_stopped tm"
  shows "tm_inv tm'"
proof (rule tm_invI)
  show "tm_reaper tm' = Some l \<Longrightarrow> alive tm' c \<Longrightarrow> c \<in> set l" for l c
    using assms(2,10) tm_invD(7) [OF assms(1)] by simp
  show "tm_reaper tm' = None \<longleftrightarrow> \<not> tm_stopped tm'"
    using assms(10,11) tm_invD(7) [OF assms(1)] by simp
  show "size (tmons tm') \<le> 1" using tm_invD(4) [OF assms(1)] by (simp add: tmons_def assms(8))
qed (use assms(3-9) alive_spawn [OF p] tm_invD(1,3) [OF assms(1)] in auto)

lemma spawn_tunnel_inv:
  assumes "tm_inv tm" "\<not> tm_stopped tm" "tmons tm = {#}"
    and p: "tm_procs tm' = tm_procs tm @ [\<lparr>pr_kind = TunnelProc, pr_args = a, pr_alive = True\<rparr>]"
    and "tm_tunnelCmd tm' = Some (length (tm_procs tm))"
    and "tm_monitors tm' = add_mset (TunnelWait (length (tm_procs tm))) (tm_monitors tm)"
    and "tm_sshCmd tm' = tm_sshCmd tm" "tm_reaper tm' = tm_reaper tm" "tm_stopped tm' = tm_stopped tm"
  shows "tm_inv tm'"
proof -
  have none: "m \<notin># tm_monitors tm" if "is_tmon m" for m
    using assms(3) that by (auto simp: tmons_def filter_mset_none)
  then have cmd: "tm_tunnelCmd tm = None" using tm_invD(3) [OF assms(1)] by (cases "tm_tunnelCmd tm") auto
  show ?thesis
  proof (rule tm_invI)
    show "tm_reaper tm' = Some l \<Longrightarrow> alive tm' c \<Longrightarrow> c \<in> set l" for l c
      using assms(2,8) tm_invD(7) [OF assms(1)] by simp
    show "tm_reaper tm' = None \<longleftrightarrow> \<not> tm_stopped tm'"
      using assms(8,9) tm_invD(7) [OF assms(1)] by simp
    show "size (tmons tm') \<le> 1" using assms(3) by (simp add: tmons_def assms(6))
  qed (use assms(5-7) none cmd alive_spawn [OF p] tm_invD(1,2) [OF assms(1)] in auto)
qed

subsection \<open>The starts\<close>

lemma spawn_procs [simp]:
  "tm_procs (spawn k a tm) = tm_procs tm @ [\<lparr>pr_kind = k, pr_args = a, pr_alive = True\<rparr>]"
  "tm_monitors (spawn k a tm) = tm_monitors tm" "tm_sshCmd (spawn k a tm) = tm_sshCmd tm"
  "tm_tunnelCmd (spawn k a tm) = tm_tunnelCmd tm" "tm_reaper (spawn k a tm) = tm_reaper tm"
  "tm_stopped (spawn k a tm) = tm_stopped tm"
  by (simp_all add: spawn_def)

lemma prepare_ssh_cong:
  assumes "prepare_ssh sys args tm = Inr (cmdline, tm1)"
  shows "tm_tunnelCmd tm1 = tm_tunnelCmd tm" "tm_sshCmd tm1 = tm_sshCmd tm" "tm_stopped tm1 = tm_stopped tm"
    "tm_procs tm1 = tm_procs tm" "tm_monitors tm1 = tm_monitors tm" "tm_reaper tm1 = tm_reaper tm"
  using assms by (auto simp: prepare_ssh_def split: if_splits)

lemma startSSH_cases:
  obtains (none) e tm1 where "startSSH sys addr tm = (Some e, tm1)"
      "tm_tunnelCmd tm1 = tm_tunnelCmd tm" "tm_sshCmd tm1 = tm_sshCmd tm" "tm_stopped tm1 = tm_stopped tm"
      "tm_procs tm1 = tm_procs tm" "tm_monitors tm1 = tm_monitors tm" "tm_reaper tm1 = tm_reaper tm"
  | (some) tm1 a where "startSSH sys addr tm = (None, tm1)"
      "tm_procs tm1 = tm_procs tm @ [\<lparr>pr_kind = SSHProc, pr_args = a, pr_alive = True\<rparr>]"
      "tm_sshCmd tm1 = Some (length (tm_procs tm))"
      "tm_monitors tm1 = add_mset (SSHWait (length (tm_procs tm))) (tm_monitors tm)"
      "tm_tunnelCmd tm1 = tm_tunnelCmd tm" "tm_reaper tm1 = tm_reaper tm" "tm_stopped tm1 = tm_stopped tm"
proof (cases "prepare_ssh sys (ssh_args (tm_config tm)
    (case SplitHostPort addr of None \<Rightarrow> '''' | Some (_, port) \<Rightarrow> port)) tm")
  case (Inl e)
  then show ?thesis by (intro none [of e tm]) (simp_all add: startSSH_def)
next
  case (Inr r)
  obtain cmdline tm1 where r: "r = (cmdline, tm1)" by (cases r)
  note eq = prepare_ssh_cong [OF Inr [unfolded r]]
  show ?thesis
  proof (cases "sys_Start sys cmdline")
    case True
    show ?thesis by (rule some [of "snd (startSSH sys addr tm)" cmdline]) (use Inr r True eq in \<open>simp_all add: startSSH_def Let_def\<close>)
  next
    case False
    then show ?thesis using Inr r eq by (intro none [of SSHStartFailed tm1]) (simp_all add: startSSH_def Let_def)
  qed
qed

lemma startSSH_error [simp]:
  "fst (startSSH sys addr tm) \<noteq> Some NoFreePort" "fst (startSSH sys addr tm) \<noteq> Some TunnelStartFailed"
  by (auto simp: startSSH_def prepare_ssh_def Let_def split: sum.split)

lemma startSSH_inv:
  assumes "tm_inv tm" "\<not> tm_stopped tm" "\<forall>c. \<not> alive_of tm SSHProc c"
    and "TunnelSleep \<notin># tm_monitors tm" "\<forall>d. TunnelKillSSH d \<notin># tm_monitors tm"
  shows "tm_inv (snd (startSSH sys addr tm))"
proof (cases rule: startSSH_cases [of sys addr tm])
  case (none e tm1)
  then show ?thesis using assms(1) tm_inv_cong [of tm1 tm] by simp
next
  case (some tm1 a)
  then show ?thesis using spawn_ssh_inv [OF assms some(2-7)] by simp
qed

lemma startLocked_inv:
  assumes "tm_inv tm" "\<not> tm_stopped tm" "tmons tm = {#}" "\<forall>c. \<not> alive_of tm SSHProc c"
  shows "tm_inv (snd (startLocked sys tm))"
proof -
  let ?n = "length (tm_procs tm)"
  have launch: "tm_inv tm2" if "tm_procs tm2 = tm_procs tm @ [\<lparr>pr_kind = TunnelProc, pr_args = a, pr_alive = True\<rparr>]"
    "tm_tunnelCmd tm2 = Some ?n" "tm_monitors tm2 = add_mset (TunnelWait ?n) (tm_monitors tm)"
    "tm_sshCmd tm2 = tm_sshCmd tm" "tm_reaper tm2 = tm_reaper tm" "tm_stopped tm2 = tm_stopped tm" for tm2 a
    by (rule spawn_tunnel_inv [OF assms(1-3) that])
  have direct: "tm_inv (snd (startDirect sys tm))"
    using assms(1) by (auto simp: startDirect_def Let_def intro!: launch)
  have "tm_inv (snd (startWithSSH sys tm))"
  proof (cases "sys_freePort sys")
    case (Some port)
    let ?tm1 = "tm\<lparr>tm_tunnelPort := Itoa (int port)\<rparr>"
    let ?args = "tc_Binary (tm_config tm) # buildSlipnetArgs (tm_config tm) (''127.0.0.1:'' @ Itoa (int port))"
    let ?tm2 = "(spawn TunnelProc ?args ?tm1)\<lparr>tm_tunnelCmd := Some ?n,
                   tm_monitors := add_mset (TunnelWait ?n) (tm_monitors tm)\<rparr>"
    have inv2: "tm_inv ?tm2" by (rule launch) simp_all
    have "m \<notin># tm_monitors tm" if "is_tmon m" for m
      using assms(3) that by (auto simp: tmons_def filter_mset_none)
    moreover have "\<forall>c. \<not> alive_of ?tm2 SSHProc c"
      using assms(4) alive_spawn [of ?tm2 tm TunnelProc ?args] by simp
    moreover have inv3: "tm_inv (exits ?n ?tm2)" using exits_inv [OF inv2] .
    ultimately have "tm_inv (snd (startSSH sys addr ?tm2))" "tm_inv (snd (startSSH sys addr (exits ?n ?tm2)))" for addr
      using inv2 assms(2) by (auto intro!: startSSH_inv)
    moreover have "tm_inv ?tm1" using assms(1) tm_inv_cong [of ?tm1 tm] by simp
    ultimately show ?thesis using Some inv2 inv3 by (simp add: startWithSSH_def Let_def)
  qed (simp add: startWithSSH_def assms(1))
  with direct show ?thesis by (simp add: startLocked_def)
qed

subsection \<open>Every reachable state\<close>

lemma leave_simps [simp]:
  "tm_tunnelCmd (leave m tm) = tm_tunnelCmd tm" "tm_sshCmd (leave m tm) = tm_sshCmd tm"
  "tm_stopped (leave m tm) = tm_stopped tm" "tm_procs (leave m tm) = tm_procs tm"
  "tm_reaper (leave m tm) = tm_reaper tm" "tm_monitors (leave m tm) = tm_monitors tm - {#m#}"
  by (simp_all add: leave_def)

lemma become_simps [simp]:
  "tm_tunnelCmd (become m m' tm) = tm_tunnelCmd tm" "tm_sshCmd (become m m' tm) = tm_sshCmd tm"
  "tm_stopped (become m m' tm) = tm_stopped tm" "tm_procs (become m m' tm) = tm_procs tm"
  "tm_reaper (become m m' tm) = tm_reaper tm" "tm_monitors (become m m' tm) = tm_monitors tm - {#m#} + {#m'#}"
  by (simp_all add: become_def)

lemma alive_moves [simp]:
  "alive (leave m tm) c = alive tm c" "alive_of (leave m tm) k c = alive_of tm k c"
  "alive (become m m' tm) c = alive tm c" "alive_of (become m m' tm) k c = alive_of tm k c"
  "alive (tm\<lparr>tm_tunnelCmd := t\<rparr>) c = alive tm c" "alive_of (tm\<lparr>tm_tunnelCmd := t\<rparr>) k c = alive_of tm k c"
  "alive (tm\<lparr>tm_sshCmd := t\<rparr>) c = alive tm c" "alive_of (tm\<lparr>tm_sshCmd := t\<rparr>) k c = alive_of tm k c"
  "alive (tm\<lparr>tm_reaper := r\<rparr>) c = alive tm c" "alive (stop_end tm) c = alive tm c"
  by (simp_all add: alive_def alive_of_def stop_end_def)

lemma no_tunnel_alive: "tm_inv tm \<Longrightarrow> tm_tunnelCmd tm = None \<Longrightarrow> \<not> alive_of tm TunnelProc c"
  using tm_invD(1) by fastforce

lemma tunnel_exited_inv:
  assumes "tm_inv tm" and m: "TunnelWait cmd \<in># tm_monitors tm" and "\<not> alive tm cmd"
  shows "tm_inv (tunnel_exited cmd tm)"
proof -
  let ?tm1 = "tm\<lparr>tm_tunnelCmd := None\<rparr>"
  have cmd: "tm_tunnelCmd tm = Some cmd" using m tm_invD(3) [OF assms(1)] by simp
  then have "\<not> alive_of tm TunnelProc c" for c
    using assms(3) tm_invD(1) [OF assms(1), of c] by (auto simp: alive_of_def)
  then have "tm_inv (leave (TunnelWait cmd) ?tm1)" "tm_inv (become (TunnelWait cmd) TunnelStopSSH ?tm1)"
    by (intro tmon_move_inv [OF assms(1) m, where N = "{#}"], simp_all)
      (intro tmon_move_inv [OF assms(1) m, where N = "{#TunnelStopSSH#}"], simp_all)
  then show ?thesis by (simp add: tunnel_exited_def Let_def cmd)
qed

lemma stopSSH_signal_inv:
  assumes "tm_inv tm" and m: "TunnelStopSSH \<in># tm_monitors tm"
  shows "tm_inv (stopSSH_signal tm)"
proof -
  have none: "tm_tunnelCmd tm = None" by (rule past_wait [OF assms(1) m]) simp_all
  show ?thesis
  proof (cases "tm_sshCmd tm")
    case None
    then have "\<not> alive_of tm SSHProc c" for c using tm_invD(2) [OF assms(1), of c] by auto
    then have "tm_inv (become TunnelStopSSH TunnelSleep tm)"
      using no_tunnel_alive [OF assms(1) none] none
      by (intro tmon_move_inv [OF assms(1) m, where N = "{#TunnelSleep#}"]) simp_all
    then show ?thesis by (simp add: stopSSH_signal_def None)
  next
    case (Some cmd)
    then have "alive_of tm SSHProc c \<Longrightarrow> c = cmd" for c using tm_invD(2) [OF assms(1), of c] by auto
    then have "tm_inv (become TunnelStopSSH (TunnelKillSSH cmd) tm)"
      using no_tunnel_alive [OF assms(1) none] none
      by (intro tmon_move_inv [OF assms(1) m, where N = "{#TunnelKillSSH cmd#}"]) simp_all
    then show ?thesis by (simp add: stopSSH_signal_def Some)
  qed
qed

lemma kill_ssh_inv:
  assumes "tm_inv tm" and m: "TunnelKillSSH cmd \<in># tm_monitors tm"
  shows "tm_inv (become (TunnelKillSSH cmd) TunnelSleep (exits cmd tm))"
proof -
  have none: "tm_tunnelCmd tm = None" by (rule past_wait [OF assms(1) m]) simp_all
  show ?thesis
    using no_tunnel_alive [OF assms(1) none] none tm_invD(6) [OF assms(1) m]
    by (intro tmon_move_inv [OF assms(1) m, where N = "{#TunnelSleep#}"]) auto
qed

lemma tunnel_restart_inv:
  assumes "tm_inv tm" and m: "TunnelSleep \<in># tm_monitors tm"
  shows "tm_inv (tunnel_restart sys tm)"
proof -
  have none: "tm_tunnelCmd tm = None" by (rule past_wait [OF assms(1) m]) simp_all
  have inv: "tm_inv (leave TunnelSleep tm)"
    using no_tunnel_alive [OF assms(1) none] none
    by (intro tmon_move_inv [OF assms(1) m, where N = "{#}"]) simp_all
  have "tmons (leave TunnelSleep tm) = {#}"
    unfolding tmons_def leave_simps by (rule tmons_leave [OF m _ assms(1)]) simp
  then have "\<not> tm_stopped tm \<Longrightarrow> tm_inv (snd (startLocked sys (leave TunnelSleep tm)))"
    using inv tm_invD(5) [OF assms(1) m] by (intro startLocked_inv) simp_all
  with inv show ?thesis by (simp add: tunnel_restart_def Let_def)
qed

lemma ssh_exited_inv:
  assumes "tm_inv tm" and m: "SSHWait cmd \<in># tm_monitors tm" and "\<not> alive tm cmd"
  shows "tm_inv (ssh_exited cmd tm)"
proof -
  define tm1 where "tm1 = (if tm_sshCmd tm = Some cmd then tm\<lparr>tm_sshCmd := None\<rparr> else tm)"
  have tm1: "tm_procs tm1 = tm_procs tm" "tm_tunnelCmd tm1 = tm_tunnelCmd tm" "tm_reaper tm1 = tm_reaper tm"
    "tm_stopped tm1 = tm_stopped tm" "tm_monitors tm1 = tm_monitors tm"
    "alive_of tm SSHProc c \<Longrightarrow> tm_sshCmd tm1 = Some c" for c
    using assms(3) tm_invD(2) [OF assms(1), of c] by (auto simp: tm1_def alive_of_def)
  then have "tm_inv (leave (SSHWait cmd) tm1)" "tm_inv (become (SSHWait cmd) SSHSleep tm1)"
    by (intro smon_move_inv [OF assms(1) m, where N = "{#}"], simp_all)
      (intro smon_move_inv [OF assms(1) m, where N = "{#SSHSleep#}"], simp_all)
  then show ?thesis by (simp add: ssh_exited_def tm1_def [symmetric] Let_def)
qed

lemma ssh_restart_inv:
  assumes "tm_inv tm" and m: "SSHSleep \<in># tm_monitors tm"
  shows "tm_inv (ssh_restart sys tm)"
proof -
  let ?tm1 = "leave SSHSleep tm"
  have inv: "tm_inv ?tm1"
    using tm_invD(2) [OF assms(1)]
    by (intro smon_move_inv [OF assms(1) m, where N = "{#}"]) simp_all
  have "tm_inv (snd (startSSH sys addr ?tm1))"
    if "\<not> tm_stopped tm" "tm_sshCmd tm = None" "tm_tunnelCmd tm = Some c" for addr c
  proof (rule startSSH_inv [OF inv])
    have "TunnelWait c \<in># tm_monitors ?tm1" using tm_invD(3) [OF inv, of c] that(3) by simp
    then have "m' = TunnelWait c" if "m' \<in># tm_monitors ?tm1" "is_tmon m'" for m'
      using tmon_unique [OF inv, of "TunnelWait c" m'] that by simp
    then show "TunnelSleep \<notin># tm_monitors ?tm1" "\<forall>d. TunnelKillSSH d \<notin># tm_monitors ?tm1" by fastforce+
  qed (use that tm_invD(2) [OF assms(1)] in auto)
  with inv show ?thesis by (auto simp: ssh_restart_def Let_def)
qed

lemma stop_begin_inv: "tm_inv tm \<Longrightarrow> tm_inv (stop_begin tm)"
proof -
  assume inv: "tm_inv tm"
  have al: "alive (stop_begin tm) c = alive tm c \<and> alive_of (stop_begin tm) k c = alive_of tm k c" for k c
    by (rule alive_cong) (simp add: stop_begin_def)
  have mon: "tm_monitors (stop_begin tm) = tm_monitors tm" "tmons (stop_begin tm) = tmons tm"
    "tm_tunnelCmd (stop_begin tm) = tm_tunnelCmd tm" "tm_sshCmd (stop_begin tm) = tm_sshCmd tm"
    by (simp_all add: stop_begin_def tmons_def)
  show ?thesis
  proof (rule tm_invI)
    fix l c assume "tm_reaper (stop_begin tm) = Some l" "alive (stop_begin tm) c"
    then show "c \<in> set l"
      using al tm_invD(1,2) [OF inv, of c]
      by (cases "pr_kind (tm_procs tm ! c)") (auto simp: stop_begin_def opt_list_def alive_of_def)
  qed (use tm_invD [OF inv] al mon in \<open>auto simp: stop_begin_def\<close>)
qed

lemma reap_inv:
  assumes "tm_inv tm" and "tm_reaper tm = Some (cmd # cmds)"
  shows "tm_inv ((exits cmd tm)\<lparr>tm_reaper := Some cmds\<rparr>)"
proof -
  let ?tm = "(exits cmd tm)\<lparr>tm_reaper := Some cmds\<rparr>"
  have al: "alive ?tm c = alive (exits cmd tm) c \<and> alive_of ?tm k c = alive_of (exits cmd tm) k c" for k c
    by (rule alive_cong) simp
  have "tmons ?tm = tmons tm" by (simp add: tmons_def)
  then show ?thesis
    using exits_inv [OF assms(1), of cmd] tm_invD(4,7,8) [OF assms(1)] assms(2) al
    by (intro tm_invI) (auto dest: tm_invD)
qed

lemma stop_end_inv: "tm_inv tm \<Longrightarrow> tm_inv (stop_end tm)"
  using tm_inv_cong [of "stop_end tm" tm] by (simp add: stop_end_def)

lemma new_inv: "tm_inv (NewTunnelManager path c)"
  by (rule tm_invI) (simp_all add: NewTunnelManager_def alive_def alive_of_def tmons_def)

lemma Start_inv: "tm_inv (snd (Start sys (NewTunnelManager path c)))"
proof -
  have "tm_inv (snd (startLocked sys (NewTunnelManager path c)))"
    by (rule startLocked_inv [OF new_inv]) (simp_all add: NewTunnelManager_def alive_def alive_of_def tmons_def)
  then show ?thesis using new_inv by (simp add: Start_def)
qed

lemma tm_step_inv: "tm_step tm tm' \<Longrightarrow> tm_inv tm \<Longrightarrow> tm_inv tm'"
  by (induction rule: tm_step.induct)
    (simp_all add: exits_inv tunnel_exited_inv stopSSH_signal_inv kill_ssh_inv tunnel_restart_inv
      ssh_exited_inv ssh_restart_inv stop_begin_inv reap_inv stop_end_inv)

lemma tm_reachable_inv: "tm_reachable tm \<Longrightarrow> tm_inv tm"
  by (induction rule: tm_reachable.induct) (auto intro: Start_inv tm_step_inv)

subsection \<open>Properties\<close>

text \<open>C12: at every moment of every run there is at most one tunnel client and at most one SSH client
  alive, and it is the one the manager holds: restarts after crashes, and the SSH restarts racing
  with them, never leave a second or a forgotten process behind.\<close>

theorem at_most_one_client:
  assumes "tm_reachable tm" and "alive tm c"
  shows "(pr_kind (tm_procs tm ! c) = TunnelProc \<and> tm_tunnelCmd tm = Some c) \<or>
    (pr_kind (tm_procs tm ! c) = SSHProc \<and> tm_sshCmd tm = Some c)"
  using assms(2) tm_invD(1,2) [OF tm_reachable_inv [OF assms(1)], of c]
  by (cases "pr_kind (tm_procs tm ! c)") (simp_all add: alive_of_def)

text \<open>The temporary directory holds at most the password script, at a path the manager remembers.\<close>

definition files_inv :: "tm \<Rightarrow> bool" where
  "files_inv tm \<longleftrightarrow> (\<forall>f. tm_files tm f \<noteq> None \<longrightarrow> f = tm_askpassPath tm \<and> f \<noteq> '''') \<and>
     (tm_askpassPath tm = '''' \<or> tm_askpassPath tm = tm_tmpPath tm) \<and> tm_tmpPath tm \<noteq> ''''"

lemma files_inv_cong:
  "tm_files tm' = tm_files tm \<Longrightarrow> tm_askpassPath tm' = tm_askpassPath tm \<Longrightarrow> tm_tmpPath tm' = tm_tmpPath tm \<Longrightarrow>
   files_inv tm' = files_inv tm"
  by (simp add: files_inv_def)

lemma prepare_ssh_files:
  "files_inv tm \<Longrightarrow> prepare_ssh sys args tm = Inr (cmdline, tm1) \<Longrightarrow> files_inv tm1"
  by (auto simp: prepare_ssh_def files_inv_def simp del: not_None_eq split: if_splits) (metis option.discI)

lemma startSSH_files: "files_inv tm \<Longrightarrow> files_inv (snd (startSSH sys addr tm))"
proof -
  assume inv: "files_inv tm"
  have "files_inv ((spawn k a tm1)\<lparr>tm_sshCmd := x, tm_monitors := y\<rparr>) = files_inv tm1" for k a tm1 x y
    by (rule files_inv_cong) (simp_all add: spawn_def)
  then show ?thesis
    using inv prepare_ssh_files [OF inv]
    by (auto simp: startSSH_def Let_def split: sum.splits if_splits)
qed

lemma startLocked_files: "files_inv tm \<Longrightarrow> files_inv (snd (startLocked sys tm))"
proof -
  assume inv: "files_inv tm"
  have ch: "files_inv ((spawn k a tm1)\<lparr>tm_tunnelCmd := x, tm_monitors := y\<rparr>) = files_inv tm1"
    "files_inv (tm1\<lparr>tm_tunnelPort := p\<rparr>) = files_inv tm1" "files_inv (exits c tm1) = files_inv tm1" for k a tm1 x y p c
    by (rule files_inv_cong; simp add: spawn_def exits_def)+
  show ?thesis
    using inv by (auto simp: startLocked_def startDirect_def startWithSSH_def Let_def ch intro!: startSSH_files split: option.splits)
qed

lemma moves_files [simp]:
  "files_inv (leave m tm) = files_inv tm" "files_inv (become m m' tm) = files_inv tm"
  "files_inv (exits c tm) = files_inv tm" "files_inv (tm\<lparr>tm_tunnelCmd := x\<rparr>) = files_inv tm"
  "files_inv (tm\<lparr>tm_sshCmd := x\<rparr>) = files_inv tm" "files_inv (tm\<lparr>tm_reaper := y\<rparr>) = files_inv tm"
  "files_inv (stop_begin tm) = files_inv tm"
  by (rule files_inv_cong; simp add: leave_def become_def exits_def stop_begin_def)+

lemma stop_end_files: "files_inv tm \<Longrightarrow> files_inv (stop_end tm) \<and> tm_files (stop_end tm) = Map.empty"
  by (auto simp: stop_end_def files_inv_def fun_eq_iff simp del: not_None_eq)

lemma tm_step_files: "tm_step tm tm' \<Longrightarrow> files_inv tm \<Longrightarrow> files_inv tm'"
  by (induction rule: tm_step.induct)
    (auto simp: tunnel_exited_def stopSSH_signal_def tunnel_restart_def ssh_exited_def ssh_restart_def
      Let_def stop_end_files intro: startLocked_files startSSH_files split: option.split)

lemma tm_reachable_files: "tm_reachable tm \<Longrightarrow> files_inv tm"
proof (induction rule: tm_reachable.induct)
  case (start path sys c)
  then have "files_inv (NewTunnelManager path c)" by (simp add: files_inv_def NewTunnelManager_def)
  then show ?case by (simp add: Start_def startLocked_files)
qed (rule tm_step_files)

definition ended :: "tm \<Rightarrow> bool" where
  "ended tm \<longleftrightarrow> tm_stopped tm \<and> tm_reaper tm = Some [] \<and> (\<forall>c. \<not> alive tm c) \<and> tm_files tm = Map.empty"

lemma move_files_simps [simp]:
  "tm_files (leave m tm) = tm_files tm" "tm_files (become m m' tm) = tm_files tm" "tm_files (exits c tm) = tm_files tm"
  by (simp_all add: leave_def become_def exits_def)

lemma stop_end_simps:
  "tm_stopped (stop_end tm) = tm_stopped tm" "tm_reaper (stop_end tm) = tm_reaper tm"
  "tm_files tm = Map.empty \<Longrightarrow> tm_files (stop_end tm) = Map.empty"
  by (simp_all add: stop_end_def)

lemma ended_step: "tm_step tm tm' \<Longrightarrow> ended tm \<Longrightarrow> ended tm'"
  by (induction rule: tm_step.induct)
    (auto simp: ended_def tunnel_exited_def stopSSH_signal_def tunnel_restart_def ssh_exited_def ssh_restart_def
      Let_def stop_end_simps stop_begin_def split: option.split)

text \<open>C11: when \<open>Stop\<close> returns, every process the manager ever started is dead, the password script is
  removed, and it stays so: no monitor that was asleep or waiting starts anything again.\<close>

theorem Stop_ends_everything:
  assumes "tm_reachable tm" and "tm_reaper tm = Some []" and "tm_step\<^sup>*\<^sup>* (stop_end tm) tm'"
  shows "(\<forall>c. \<not> alive tm' c) \<and> tm_files tm' = Map.empty"
proof -
  note inv = tm_reachable_inv [OF assms(1)]
  have "\<not> alive tm c" for c using tm_invD(8) [OF inv assms(2), of c] by auto
  then have "ended (stop_end tm)"
    using stop_end_files [OF tm_reachable_files [OF assms(1)]] tm_invD(7) [OF inv] assms(2)
    by (auto simp: ended_def stop_end_simps)
  with assms(3) have "ended tm'" by (induction rule: rtranclp_induct) (auto intro: ended_step)
  then show ?thesis by (simp add: ended_def)
qed

text \<open>\<open>given_up\<close>: no tunnel process and no monitor that could start one.\<close>

definition given_up :: "tm \<Rightarrow> bool" where
  "given_up tm \<longleftrightarrow> tm_tunnelCmd tm = None \<and> tmons tm = {#}"

lemma given_up_step: "tm_step tm tm' \<Longrightarrow> given_up tm \<Longrightarrow> given_up tm' \<and> length (tm_procs tm') = length (tm_procs tm)"
proof (induction rule: tm_step.induct)
  case (ssh_down cmd tm)
  then show ?case by (auto simp: given_up_def ssh_exited_def Let_def tmons_def filter_mset_none dest: in_diffD)
next
  case (restart_ssh tm sys)
  then show ?case by (auto simp: given_up_def ssh_restart_def Let_def tmons_def filter_mset_none dest: in_diffD)
qed (auto simp: given_up_def tmons_def filter_mset_none stop_begin_def stop_end_def exits_def)


subsection \<open>The password script\<close>

text \<open>
  The shell that runs the script is a parameter: \<open>word\<close> reads one word of a command and gives its value and the rest of the
  line, \<open>None\<close> for a line it cannot read. What the code relies on are three rules of the POSIX shell command language: between
  single quotes every byte but the quote stands for itself, outside of them a backslash makes the quote stand for itself, and
  a newline ends the word. Nothing is said of NUL bytes, which no script and no argument can hold.
\<close>

lemma shell_reads_escaped:
  assumes single: "\<And>s rest. quote_char \<notin> set s \<Longrightarrow> CHR 0x00 \<notin> set s \<Longrightarrow>
      word (quote_char # s @ quote_char # rest) = map_option (apfst ((@) s)) (word rest)"
    and escaped: "\<And>rest. word (backslash # quote_char # rest) = map_option (apfst ((#) quote_char)) (word rest)"
  shows "quote_char \<notin> set s \<Longrightarrow> CHR 0x00 \<notin> set s \<Longrightarrow> CHR 0x00 \<notin> set pw \<Longrightarrow>
    word (quote_char # s @ escapedPass pw @ quote_char # rest) = map_option (apfst ((@) (s @ pw))) (word rest)"
proof (induction pw arbitrary: s)
  case Nil
  then show ?case by (simp add: escapedPass_def single)
next
  case (Cons c pw)
  show ?case
  proof (cases "c = quote_char")
    case True
    then have "word (quote_char # s @ escapedPass (c # pw) @ quote_char # rest) =
        word (quote_char # s @ quote_char # backslash # quote_char # quote_char # [] @ escapedPass pw @ quote_char # rest)"
      by (simp add: escapedPass_def)
    also have "\<dots> = map_option (apfst ((@) s)) (map_option (apfst ((#) quote_char)) (map_option (apfst ((@) ([] @ pw))) (word rest)))"
      using Cons.prems Cons.IH [of "[]"] by (simp add: single escaped)
    also have "\<dots> = map_option (apfst ((@) (s @ c # pw))) (word rest)"
      using True by (cases "word rest") (auto simp: apfst_def map_prod_def)
    finally show ?thesis .
  next
    case False
    then have "escapedPass (c # pw) = c # escapedPass pw" by (simp add: escapedPass_def)
    with False Cons.prems Cons.IH [of "s @ [c]"] show ?thesis by simp
  qed
qed

text \<open>C40: a shell that keeps these rules hands \<open>printf\<close> the SSH password byte for byte when it runs the password script, whatever
  quotes, backslashes, blanks or newlines the password contains, as long as it has no NUL byte, and the line ends right
  after it.\<close>

theorem askpass_script_password:
  assumes "\<And>s rest. quote_char \<notin> set s \<Longrightarrow> CHR 0x00 \<notin> set s \<Longrightarrow>
      word (quote_char # s @ quote_char # rest) = map_option (apfst ((@) s)) (word rest)"
    and "\<And>rest. word (backslash # quote_char # rest) = map_option (apfst ((#) quote_char)) (word rest)"
    and "\<And>rest. word (CHR 0x0A # rest) = Some ([], CHR 0x0A # rest)"
    and "CHR 0x00 \<notin> set pw"
  shows "\<exists>quoted. askpass_script pw = askpass_head @ quoted @ [CHR 0x0A] \<and>
     word (quoted @ [CHR 0x0A]) = Some (pw, [CHR 0x0A])"
proof (intro exI conjI)
  show "askpass_script pw = askpass_head @ ([quote_char] @ escapedPass pw @ [quote_char]) @ [CHR 0x0A]"
    by (simp add: askpass_script_def)
  show "word (([quote_char] @ escapedPass pw @ [quote_char]) @ [CHR 0x0A]) = Some (pw, [CHR 0x0A])"
    using shell_reads_escaped [OF assms(1,2), of "[]" pw "[CHR 0x0A]"] assms(3,4) by simp
qed

text \<open>A reader of words that keeps the rules, and refuses NUL bytes.\<close>

fun ex_word :: "bool \<Rightarrow> string \<Rightarrow> (string \<times> string) option" where
  "ex_word quoted [] = (if quoted then None else Some ([], []))"
| "ex_word True (c # s) =
     (if c = quote_char then ex_word False s
      else if c = CHR 0x00 then None else map_option (apfst ((#) c)) (ex_word True s))"
| "ex_word False (c # s) =
     (if c = quote_char then ex_word True s
      else if c = CHR '' '' \<or> c = CHR 0x0A then Some ([], c # s)
      else if c = CHR 0x00 then None
      else if c = backslash then
        (case s of [] \<Rightarrow> None | d # s' \<Rightarrow> map_option (apfst ((#) d)) (ex_word False s'))
      else map_option (apfst ((#) c)) (ex_word False s))"

lemma ex_word_quoted:
  "quote_char \<notin> set s \<Longrightarrow> CHR 0x00 \<notin> set s \<Longrightarrow>
    ex_word True (s @ quote_char # rest) = map_option (apfst ((@) s)) (ex_word False rest)"
  by (induction s; cases "ex_word False rest") (auto simp: apfst_def map_prod_def)

theorem askpass_script_password_witness:
  "\<exists>quoted. askpass_script (''it'' @ quote_char # ''s'') = askpass_head @ quoted @ [CHR 0x0A] \<and>
     ex_word False (quoted @ [CHR 0x0A]) = Some (''it'' @ quote_char # ''s'', [CHR 0x0A])"
proof (rule askpass_script_password)
  show "ex_word False (quote_char # s @ quote_char # rest) = map_option (apfst ((@) s)) (ex_word False rest)"
    if "quote_char \<notin> set s" "CHR 0x00 \<notin> set s" for s rest
    using that by (simp add: ex_word_quoted)
  show "ex_word False (backslash # quote_char # rest) = map_option (apfst ((#) quote_char)) (ex_word False rest)" for rest
    by (simp add: backslash_def quote_char_def)
  show "ex_word False (CHR 0x0A # rest) = Some ([], CHR 0x0A # rest)" for rest
    by (simp add: quote_char_def)
qed (simp add: quote_char_def)

subsection \<open>Waiting for the tunnel client\<close>

text \<open>
  The loop ends: a success is the last dial, a failure means that no dial connected and the time is over; there are at
  most \<open>(deadline - now) / retryDelay\<close> dials, rounded up, and it ends at most one dial and one pause late.
\<close>

lemma wait_dials_result:
  "wait_dials deadline dial i now = (ok, n, t) \<Longrightarrow> i \<le> n \<and> now \<le> t \<and>
    (\<forall>j. i \<le> j \<and> Suc j < n \<longrightarrow> \<not> snd (dial j)) \<and> (if ok then i < n \<and> snd (dial (n - 1)) else deadline \<le> t \<and> (i < n \<longrightarrow> \<not> snd (dial (n - 1))))"
proof (induction deadline dial i now rule: wait_dials.induct)
  case (1 deadline dial i now)
  obtain took c where d: "dial i = (took, c)" by fastforce
  show ?case
  proof (cases "now < deadline \<and> \<not> c")
    case True
    then have rest: "wait_dials deadline dial (Suc i) (now + took + retryDelay) = (ok, n, t)"
      using "1.prems" d by (subst (asm) wait_dials.simps) simp
    from True have "now < deadline" "\<not> c" by simp_all
    note IH = "1.IH" [OF this(1) d [symmetric] this(2) rest]
    have "\<not> snd (dial j)" if "i \<le> j" "Suc j < n" for j
      using IH that True d by (cases "j = i") auto
    moreover have "\<not> snd (dial (n - 1))" if "\<not> ok"
      using IH that True d by (cases "n = Suc i") auto
    ultimately show ?thesis using IH by auto
  qed (use "1.prems" d in \<open>auto simp: wait_dials.simps [of deadline dial i now] split: if_splits\<close>)
qed

lemma wait_dials_bounds:
  "wait_dials deadline dial i now = (ok, n, t) \<Longrightarrow> \<forall>j. fst (dial j) \<le> most \<Longrightarrow>
    (n - i) * retryDelay < (deadline - now) + retryDelay \<and> t < max (Suc now) (deadline + most + retryDelay)"
proof (induction deadline dial i now rule: wait_dials.induct)
  case (1 deadline dial i now)
  obtain took c where d: "dial i = (took, c)" by fastforce
  have took: "took \<le> most" using "1.prems"(2) d by (metis fst_conv)
  have pos: "0 < retryDelay" by (simp add: retryDelay_def)
  show ?case
  proof (cases "now < deadline \<and> \<not> c")
    case True
    then have rest: "wait_dials deadline dial (Suc i) (now + took + retryDelay) = (ok, n, t)"
      using "1.prems" d by (subst (asm) wait_dials.simps) simp
    from True have "now < deadline" "\<not> c" by simp_all
    note IH = "1.IH" [OF this(1) d [symmetric] this(2) rest "1.prems"(2)]
    have "Suc i \<le> n" using wait_dials_result [OF rest] by simp
    then have "(n - i) * retryDelay = (n - Suc i) * retryDelay + retryDelay"
      by (metis Suc_diff_le add.commute diff_Suc_Suc mult_Suc)
    with IH True took pos show ?thesis by (cases "now + took + retryDelay \<le> deadline") (auto simp: max_def split: if_splits)
  qed (use "1.prems" d took pos in \<open>auto simp: wait_dials.simps [of deadline dial i now] split: if_splits\<close>)
qed

text \<open>What \<open>Start\<close> relies on: with dials of at most half a second the wait of 30 seconds ends before 31 seconds after at
  most 60 dials, and it succeeds exactly when its last dial does.\<close>

lemma waitForPort_ends:
  assumes "waitForPort dial 30000000000 = (ok, n, t)" and "\<forall>j. fst (dial j) \<le> 500000000"
  shows "n \<le> 60 \<and> t < 31000000000 \<and> ok = (\<exists>j<n. snd (dial j))"
proof -
  note r = wait_dials_result [OF assms(1) [unfolded waitForPort_def]]
  note b = wait_dials_bounds [OF assms(1) [unfolded waitForPort_def] assms(2)]
  have "ok = (\<exists>j<n. snd (dial j))"
  proof (cases ok)
    case False
    have "\<not> snd (dial j)" if "j < n" for j using r False that by (cases "Suc j = n") auto
    with False show ?thesis by simp
  qed (use r in \<open>auto intro!: exI [of _ "n - 1"]\<close>)
  with b show ?thesis by (simp add: retryDelay_def)
qed

lemma waitForPort_fails:
  assumes "\<And>j. \<not> snd (dial j)"
  shows "\<not> fst (waitForPort dial timeout)"
  using wait_dials_result [of timeout dial 0 0] assms by (cases "wait_dials timeout dial 0 0") (auto simp: waitForPort_def split: if_splits)

subsection \<open>Instances\<close>

text \<open>A run: start without SSH, a crash, the monitor's three steps, a failed restart; and a stop.\<close>

definition ex_sys :: "bool \<Rightarrow> sys" where
  "ex_sys ok = \<lparr>sys_LookPath = \<lambda>_. True, sys_Start = \<lambda>_. ok, sys_freePort = Some 7000,
     sys_dial = \<lambda>_. (0, True), sys_clientEnds = False, sys_WriteFile = True\<rparr>"

definition ex_tm0 :: tm where
  "ex_tm0 = snd (Start (ex_sys True) (NewTunnelManager ''/tmp/p'' ex_config))"

definition ex_tm1 :: tm where
  "ex_tm1 = stopSSH_signal (tunnel_exited 0 (exits 0 ex_tm0))"

lemma ex_tm0_facts [simp]:
  "alive ex_tm0 0" "tm_monitors ex_tm0 = {#TunnelWait 0#}" "tm_reaper ex_tm0 = None"
  "tm_stopped ex_tm0 = False" "tm_sshCmd ex_tm0 = None" "tm_tunnelCmd ex_tm0 = Some 0"
  "tc_SSHEnabled (tm_config ex_tm0) = False" "pr_kind (tm_procs ex_tm0 ! 0) = TunnelProc"
  by (simp_all add: ex_tm0_def Start_def startLocked_def startDirect_def NewTunnelManager_def ex_sys_def
      default_config_def ex_config_def spawn_def alive_def Let_def)

lemma ex_tm0_reachable: "tm_reachable ex_tm0"
  unfolding ex_tm0_def by (rule tm_reachable.start) simp

lemma ex_tm1_reachable: "tm_reachable ex_tm1"
  unfolding ex_tm1_def
  by (intro tm_reachable.step [OF _ tm_step.signal_ssh] tm_reachable.step [OF _ tm_step.tunnel_down]
      tm_reachable.step [OF _ tm_step.exit] ex_tm0_reachable) (simp_all add: tunnel_exited_def)

theorem at_most_one_client_witness: "tm_tunnelCmd ex_tm0 = Some 0 \<or> tm_sshCmd ex_tm0 = Some 0"
  using at_most_one_client [OF ex_tm0_reachable, of 0] by auto

theorem Stop_ends_everything_witness:
  "\<forall>c. \<not> alive (stop_end ((exits 0 (stop_begin ex_tm0))\<lparr>tm_reaper := Some []\<rparr>)) c"
proof -
  have "tm_reachable ((exits 0 (stop_begin ex_tm0))\<lparr>tm_reaper := Some []\<rparr>)"
    by (intro tm_reachable.step [OF _ tm_step.reap] tm_reachable.step [OF _ tm_step.stop] ex_tm0_reachable)
      (simp_all add: stop_begin_def opt_list_def)
  from Stop_ends_everything [OF this _ rtranclp.rtrancl_refl] show ?thesis by simp
qed


end
