(* ===== verification/MainRun.thy ===== *)
theory MainRun
  imports MainConfig AutoScanSpec ListenerSpec TunnelSpec Frozen
begin

text \<open>
  \<open>main.go\<close>, what runs: the order in which tunnel mode starts its parts, the periodic loops, and the shutdown. The
  main goroutine is followed from call to call; the auto-scanner's goroutine runs beside it and decides, through the
  readiness channel, whether it goes on.
\<close>

subsection \<open>Waiting for resolvers\<close>

text \<open>
  The main goroutine until it may start the tunnel: \<open>Done\<close> when it goes on, \<open>Blocked\<close> when it waits for ever. Nothing
  but the initial scan closes the channel it waits for. Without scanning it waits for a healthy resolver.
\<close>

definition main_wait :: "scan_sys \<Rightarrow> flags \<Rightarrow> FindNSScanner option \<Rightarrow> tunnel_setup \<Rightarrow> unit outcome \<times> pool" where
  "main_wait sys f findns ts =
     (let pool = tunnel_pool f ts in
      if \<not> fl_noScan f then
        (case initialScan sys (auto_scanner f findns ts pool) of
           (Panic, as) \<Rightarrow> (Panic, a_pool as)
         | (_, as) \<Rightarrow>
             (case WaitReady as of
                Done _ \<Rightarrow> SetOnResolverDown True (a_pool as)
              | Blocked \<Rightarrow> (Blocked, a_pool as) | Panic \<Rightarrow> (Panic, a_pool as)))
      else and_then (HealthyCount pool) (\<lambda>n p. if n = 0 then (Blocked, p) else (Done (), p)))"

subsection \<open>Starting the tunnel\<close>

datatype tunnel_end = Running tm "string list" | Exits tm_error tm | Waits | Crashes

text \<open>
  A tunnel that starts keeps the directories of the unpacked binaries until the program returns. One that does not start
  ends the program with \<open>os.Exit\<close>, which runs no deferred call: nothing is stopped or removed.
\<close>

definition run_tunnel :: "extract_sys \<Rightarrow> scan_sys \<Rightarrow> sys \<Rightarrow> string \<Rightarrow> flags \<Rightarrow> tunnel_setup \<Rightarrow> disk \<Rightarrow> tunnel_end \<times> disk" where
  "run_tunnel x ssys tsys tmp f ts d =
     (case findns_binary x f d of
        ((fbin, fdir), d) \<Rightarrow>
          (case main_wait ssys f (findns_scanner (s_lookPath ssys) fbin f ts) ts of
             (Panic, _) \<Rightarrow> (Crashes, d)
           | (Blocked, _) \<Rightarrow> (Waits, d)
           | (Done _, _) \<Rightarrow>
               (case slipnet_binary x f d of
                  ((bin, sdir), d) \<Rightarrow>
                    (case Start tsys (NewTunnelManager tmp (tunnel_config f ts bin)) of
                       (None, tm) \<Rightarrow> (Running tm [sdir, fdir], d)
                     | (Some e, tm) \<Rightarrow> (Exits e tm, d)))))"

subsection \<open>Periodic loops\<close>

text \<open>One turn of the health loop meets networks and an order of arrival.\<close>

fun health_loop :: "(string \<Rightarrow> bytes option) \<Rightarrow> ((nat \<Rightarrow> transport) \<times> nat list) list \<Rightarrow> pool \<Rightarrow> unit outcome \<times> pool" where
  "health_loop mkquery [] p = (Done (), p)"
| "health_loop mkquery ((nets, order) # checks) p =
     and_then (HealthCheck mkquery nets order p) (\<lambda>_ p.
     and_then (HealthyCount p) (\<lambda>_ p. health_loop mkquery checks p))"

text \<open>The handler of \<open>SIGHUP\<close>, signal after signal.\<close>

fun sighup_loop :: "file_system list \<Rightarrow> reloader option \<Rightarrow> unit outcome \<times> reloader option" where
  "sighup_loop [] r = (Done (), r)"
| "sighup_loop (fs # signals) None = sighup_loop signals None"
| "sighup_loop (fs # signals) (Some r) =
     (case Reload fs r of
        (Done _, r') \<Rightarrow> sighup_loop signals (Some r')
      | (Blocked, r') \<Rightarrow> (Blocked, Some r')
      | (Panic, r') \<Rightarrow> (Panic, Some r'))"

subsection \<open>Shutting down\<close>

record running =
  rn_reloader :: "reloader option"
  rn_tunnel :: "tm option"
  rn_scanStopped :: "bool option"
  rn_udp :: "(nat \<times> bytes) server"
  rn_tcp :: "nat server option"
  rn_coverStopped :: "bool option"

text \<open>Closing a channel a second time panics.\<close>

definition close_once :: "(bool \<Rightarrow> bool outcome) \<Rightarrow> bool option \<Rightarrow> bool option outcome" where
  "close_once stop ch = (case ch of None \<Rightarrow> Done None
     | Some b \<Rightarrow> (case stop b of Done b' \<Rightarrow> Done (Some b') | Blocked \<Rightarrow> Blocked | Panic \<Rightarrow> Panic))"

definition stop_tcp :: "nat server option \<Rightarrow> nat server option outcome" where
  "stop_tcp t = (case t of None \<Rightarrow> Done None
     | Some v \<Rightarrow> (case Stop_server v of Done v' \<Rightarrow> Done (Some v') | Blocked \<Rightarrow> Blocked | Panic \<Rightarrow> Panic))"

text \<open>
  The calls after the signal, in their order; the tunnel manager's \<open>Stop\<close> is here the section that marks it stopped and
  takes its processes, the rest of it follows in \<open>Tunnel\<close>.
\<close>

definition shutdown :: "running \<Rightarrow> unit outcome \<times> running" where
  "shutdown s =
     (let s = s\<lparr>rn_reloader := map_option Stop_reloader (rn_reloader s),
                rn_tunnel := map_option stop_begin (rn_tunnel s)\<rparr> in
      case close_once Stop_scanner (rn_scanStopped s) of
        Done ch \<Rightarrow>
          (let s = s\<lparr>rn_scanStopped := ch\<rparr> in
           case Stop_server (rn_udp s) of
             Done u \<Rightarrow>
               (let s = s\<lparr>rn_udp := u\<rparr> in
                case stop_tcp (rn_tcp s) of
                  Done t \<Rightarrow>
                    (let s = s\<lparr>rn_tcp := t\<rparr> in
                     case close_once Stop_cover (rn_coverStopped s) of
                       Done ch \<Rightarrow> (Done (), s\<lparr>rn_coverStopped := ch\<rparr>)
                     | Blocked \<Rightarrow> (Blocked, s) | Panic \<Rightarrow> (Panic, s))
                | Blocked \<Rightarrow> (Blocked, s) | Panic \<Rightarrow> (Panic, s))
           | Blocked \<Rightarrow> (Blocked, s) | Panic \<Rightarrow> (Panic, s))
      | Blocked \<Rightarrow> (Blocked, s) | Panic \<Rightarrow> (Panic, s))"

end
