(* ===== verification/MainSpec.thy ===== *)
theory MainSpec
  imports MainRun
begin

text \<open>
  Start-up as a whole: every pool the program starts with is well formed, tunnel mode gets past its wait only when the
  scan found nothing, a scan interval that is not positive is not refused, a generated profile configures the tunnel it
  was made for, and what a failed start leaves running.
\<close>

subsection \<open>The pool at the start\<close>

lemma choose_resolvers_ne: "choose_resolvers os doh parsed = Inr rs \<Longrightarrow> rs \<noteq> []"
  by (auto simp: choose_resolvers_def doh_defaults_def defaultDoHResolvers_def Let_def split: if_splits)

lemma ProbeResolvers_ne: "p_resolvers p \<noteq> [] \<Longrightarrow> ProbeResolvers mkquery nets order p \<noteq> []"
  by (simp add: ProbeResolvers_def Let_def)

lemma SetHealthDomain_free:
  "p_mu p = Readers 0 \<Longrightarrow> SetHealthDomain d p = (Done (), if d \<noteq> [] then p\<lparr>p_healthDomain := d\<rparr> else p)"
  by (simp add: SetHealthDomain_def with_Lock_def)

lemma pool_ready_health_domain: "pool_ready p \<Longrightarrow> pool_ready (p\<lparr>p_healthDomain := d\<rparr>)"
  by (simp add: pool_ready_def pool_inv_def)

lemma resolve_tunnelD:
  assumes "resolve_tunnel os f parsed = Inr ts"
  shows "ts_resolvers ts \<noteq> []" and "ts_domain ts \<noteq> []" and "ts_pubkey ts \<noteq> []"
    and "ParseDuration (fl_scanInterval f) = Some (ts_interval ts)"
  using assms
  by (auto simp: resolve_tunnel_def Let_def dest: choose_resolvers_ne split: sum.splits if_splits option.splits)

lemma tunnel_pool_ready':
  assumes "ts_resolvers ts \<noteq> []"
  shows "pool_ready (tunnel_pool f ts)"
proof -
  have ready: "pool_ready (NewResolverPool (ts_resolvers ts) (fl_mode f) (fl_doh f))"
    using assms by (rule new_pool_ready)
  then have "p_mu (NewResolverPool (ts_resolvers ts) (fl_mode f) (fl_doh f)) = Readers 0" by (simp add: pool_ready_def)
  with ready show ?thesis by (simp add: tunnel_pool_def SetHealthDomain_free pool_ready_health_domain)
qed

lemma tunnel_pool_ready: "resolve_tunnel os f parsed = Inr ts \<Longrightarrow> pool_ready (tunnel_pool f ts)"
  by (rule tunnel_pool_ready') (rule resolve_tunnelD(1))

text \<open>C24: whatever the flags, the files and the outcome of the first probe are, the pool that a mode starts with is well
  formed and unlocked, and holds at least one resolver; a program that has none to offer exits instead.\<close>

theorem startup_pool_wellformed:
  "(main_mode os f = Inr (Run_proxy f' parsed) \<longrightarrow>
      (let p = sv_pool (start_proxy mkquery nets order oor os f' parsed)
       in pool_inv p \<and> p_mu p = Readers 0 \<and> p_resolvers p \<noteq> [])) \<and>
   (resolve_tunnel os g given = Inr ts \<longrightarrow>
      pool_inv (tunnel_pool g ts) \<and> p_mu (tunnel_pool g ts) = Readers 0 \<and> p_resolvers (tunnel_pool g ts) \<noteq> [])"
proof -
  have "pool_ready (sv_pool (start_proxy mkquery nets order oor os f' parsed))"
    if "main_mode os f = Inr (Run_proxy f' parsed)"
  proof -
    have ne: "parsed \<noteq> []"
      using that choose_resolvers_ne
      by (auto simp: main_mode_def scan_mode_def Let_def split: if_splits sum.splits)
    have "p_resolvers (NewResolverPool parsed (fl_mode f') (fl_doh f')) = parsed"
      by (simp add: NewResolverPool_def)
    with ne have "ProbeResolvers mkquery nets order (NewResolverPool parsed (fl_mode f') (fl_doh f')) \<noteq> []"
      by (intro ProbeResolvers_ne) simp
    with ne show ?thesis by (simp add: start_proxy_def Let_def new_pool_ready)
  qed
  moreover have "pool_ready (tunnel_pool g ts)" if "resolve_tunnel os g given = Inr ts"
    using that by (rule tunnel_pool_ready)
  ultimately show ?thesis by (auto simp: pool_ready_def Let_def dest: pool_invD(1))
qed

subsection \<open>The wait\<close>

lemma auto_scanner_simps [simp]:
  "a_pool (auto_scanner f findns ts pool) = pool" "a_workers (auto_scanner f findns ts pool) = fl_scanWorkers f"
  "\<not> a_ready (auto_scanner f findns ts pool)" "a_findns (auto_scanner f findns ts pool) = findns"
  "a_interval (auto_scanner f findns ts pool) = ts_interval ts"
  by (simp_all add: auto_scanner_def Let_def NewAutoScanner_def SetFindNS_def split: option.split)

lemma SetOnResolverDown_free:
  "p_mu p = Readers 0 \<Longrightarrow> SetOnResolverDown fn p = (Done (), p\<lparr>p_onResolverDown := fn\<rparr>)"
  by (simp add: SetOnResolverDown_def with_Lock_def)

lemma HealthyCount_ready:
  assumes "pool_ready p"
  shows "\<exists>n. HealthyCount p = (Done n, p) \<and> 0 < n"
proof -
  have "HealthyCount p = (Done (length (p_healthyCache p)), p)"
    using assms by (intro HealthyCount_Done) (simp add: pool_ready_def)
  moreover have "p_healthyCache p \<noteq> []" using assms pool_inv_cache(1) by (simp add: pool_ready_def)
  ultimately show ?thesis by simp
qed

text \<open>C2: tunnel mode gets past its wait only with the resolvers it was given. With scanning, and at least one scan worker, the
  main goroutine goes on exactly when the first scan has found nothing, neither \<open>findns\<close> (in the list or in its deep scan)
  nor the built-in scanner, and then on the very pool it began with; as soon as either finds a resolver the main goroutine
  waits for ever and the pool is locked. Without scanning it never waits.\<close>

theorem tunnel_starts_blind:
  fixes f :: flags and ts :: tunnel_setup and findns :: "FindNSScanner option"
  assumes "resolve_tunnel os f parsed = Inr ts" and "0 < fl_scanWorkers f"
  defines "as \<equiv> auto_scanner f findns ts (tunnel_pool f ts)"
  shows "if fl_noScan f then main_wait sys f findns ts = (Done (), tunnel_pool f ts)
     else if findns_finds sys as \<or> builtin_finds sys as
       then fst (main_wait sys f findns ts) = Blocked \<and> p_mu (snd (main_wait sys f findns ts)) = Writer
     else main_wait sys f findns ts = (Done (), (tunnel_pool f ts)\<lparr>p_onResolverDown := True\<rparr>)"
proof -
  note ready = tunnel_pool_ready [OF assms(1)]
  then have free: "p_mu (tunnel_pool f ts) = Readers 0" by (simp add: pool_ready_def)
  have as: "p_mu (a_pool as) = Readers 0" "0 < a_workers as" "\<not> a_ready as" "a_pool as = tunnel_pool f ts"
    using free assms(2) by (simp_all add: as_def)
  have main: "main_wait sys f findns ts =
      (if fl_noScan f then (Done (), tunnel_pool f ts)
       else case initialScan sys as of (Panic, as) \<Rightarrow> (Panic, a_pool as)
         | (_, as) \<Rightarrow> if a_ready as then SetOnResolverDown True (a_pool as) else (Blocked, a_pool as))"
    using HealthyCount_ready [OF ready]
    by (auto simp: main_wait_def as_def Let_def WaitReady_def split: prod.split outcome.split)
  obtain out as' where scan: "initialScan sys as = (out, as')" by fastforce
  from initialScan_finds [OF as(1-3), of sys] as(4) free show ?thesis
    unfolding main scan nothing_or_stuck_def
    by (cases out) (auto simp: SetOnResolverDown_free split: if_splits)
qed

text \<open>C29: the scan interval is not checked: whatever passes the start-up checks passes them with an interval that is not positive
  too. A program that scans, with at least one worker, then ends in a panic of \<open>time.NewTicker\<close> as soon as its first scan
  has found nothing; it is spared that only when the scan has found a resolver and is stuck before the ticker.\<close>

theorem interval_unchecked:
  fixes g :: flags and ts :: tunnel_setup and findns :: "FindNSScanner option"
  assumes "resolve_tunnel os g parsed = Inr ts" and "0 < fl_scanWorkers g" and "ParseDuration s = Some i" and "i \<le> 0"
  defines "f \<equiv> g\<lparr>fl_scanInterval := s\<rparr>" and "us \<equiv> ts\<lparr>ts_interval := i\<rparr>"
  defines "as \<equiv> auto_scanner f findns us (tunnel_pool f us)"
  shows "resolve_tunnel os f parsed = Inr us \<and>
    fst (as_run sys ws as) = (if findns_finds sys as \<or> builtin_finds sys as then Blocked else Panic)"
proof -
  have passes: "resolve_tunnel os f parsed = Inr us"
    using assms(1,3) by (auto simp: resolve_tunnel_def f_def us_def Let_def split: sum.splits if_splits option.splits)
  have "p_mu (a_pool as) = Readers 0" "0 < a_workers as" "\<not> a_ready as"
    using tunnel_pool_ready [OF passes] assms(2) by (simp_all add: as_def f_def pool_ready_def)
  note scan = initialScan_finds [OF this, of sys]
  have "as_ticked ws (signalReady as) = (Panic, signalReady as)"
    using assms(4) by (simp add: as_ticked_def as_def us_def signalReady_def)
  with scan passes show ?thesis
    by (cases "initialScan sys as") (auto simp: as_run_def nothing_or_stuck_def split: if_splits)
qed

subsection \<open>Profile and tunnel\<close>

text \<open>C25: a profile that was generated for a domain, a key and a tunnel type sets tunnel mode up for exactly these, when it is
  given as a URI without further flags: the same domain, key and type reach the tunnel client, without SSH.\<close>

theorem generated_profile_sets_up:
  assumes "CHR ''|'' \<notin> set (tc_Domain c)" and "CHR ''|'' \<notin> set (tc_PublicKey c)"
    and "tc_TunnelType c = ''dnstt'' \<or> tc_TunnelType c = ''noizdns''"
    and "SplitHostPort addr = Some (host, port)" and "host \<noteq> ''''" and "CHR ''|'' \<notin> set host"
    and "tc_Domain c \<noteq> ''''" and "tc_PublicKey c \<noteq> ''''" and "parsed \<noteq> []"
    and "fl_tunnelProfile f = generateProfileURI c addr" and "fl_tunnelDomain f = ''''"
    and "fl_tunnelPubkey f = ''''" and "fl_tunnelType f = ''dnstt''" and "ParseDuration (fl_scanInterval f) = Some i"
  shows "\<exists>ts. resolve_tunnel os f parsed = Inr ts \<and> ts_resolvers ts = parsed \<and>
     tc_Domain (tunnel_config f ts bin) = tc_Domain c \<and> tc_PublicKey (tunnel_config f ts bin) = tc_PublicKey c \<and>
     tc_TunnelType (tunnel_config f ts bin) = tc_TunnelType c \<and> \<not> tc_SSHEnabled (tunnel_config f ts bin)"
proof -
  have "CHR ''|'' \<notin> set (tc_TunnelType c)" using assms(3) by auto
  from generateProfileURI_profile [OF assms(1,2) this assms(4-6)] obtain p where
    p: "ParseSlipNetURI (generateProfileURI c addr) = Inr p" "Domain p = tc_Domain c" "PublicKey p = tc_PublicKey c"
      "TunnelType p = (if tc_TunnelType c = ''noizdns'' then ''sayedns''
                       else if tc_TunnelType c = '''' then ''dnstt'' else tc_TunnelType c)"
    by blast
  have type: "DisplayTunnelType p = tc_TunnelType c" "\<not> IsSSH p"
    using assms(3) p(4) by (auto simp: DisplayTunnelType_def IsSSH_def HasSuffix_def)
  have "generateProfileURI c addr \<noteq> []" by (simp add: generateProfileURI_def scheme_def)
  moreover have "profile_uri os (generateProfileURI c addr) = Inr (generateProfileURI c addr)"
    by (simp add: profile_uri_def generateProfileURI_def)
  ultimately have "resolve_tunnel os f parsed = Inr \<lparr>ts_uri = generateProfileURI c addr, ts_profile = Some p,
      ts_domain = tc_Domain c, ts_pubkey = tc_PublicKey c, ts_type = tc_TunnelType c,
      ts_scanDomain = (if fl_scanDomain f = '''' then tc_Domain c else fl_scanDomain f), ts_resolvers = parsed, ts_interval = i\<rparr>"
    using assms(7-14) p(1-3) type(1)
    by (simp add: resolve_tunnel_def parse_profile_def from_profile_def choose_resolvers_def Let_def)
  then show ?thesis using type(2) by (simp add: tunnel_config_def Let_def)
qed

subsection \<open>A start that fails\<close>

text \<open>The errors of \<open>Start\<close> that come after the tunnel client was started.\<close>

definition late_error :: "tm_error \<Rightarrow> bool" where
  "late_error e \<longleftrightarrow> e = NotListening \<or> e = AskpassFailed \<or> e = SSHStartFailed"

lemma alive_new [simp]: "\<not> alive (NewTunnelManager tmp c) cmd"
  by (simp add: alive_def NewTunnelManager_def)

lemma Start_fails_alive:
  assumes "Start sys (NewTunnelManager tmp c) = (Some e, tm)"
  shows "(\<exists>cmd. alive tm cmd) \<longleftrightarrow> late_error e \<and> \<not> sys_clientEnds sys"
proof -
  have "tm_procs tm = [] \<and> \<not> late_error e \<or>
      (\<exists>a. tm_procs tm = [\<lparr>pr_kind = TunnelProc, pr_args = a, pr_alive = \<not> sys_clientEnds sys\<rparr>]) \<and> late_error e"
    using assms
    by (auto simp: Start_def startLocked_def startDirect_def startWithSSH_def startSSH_def prepare_ssh_def Let_def
        late_error_def spawn_def NewTunnelManager_def exits_def split: if_splits option.splits sum.splits prod.splits)
  then show ?thesis by (auto simp: alive_def)
qed

text \<open>C28: when the tunnel cannot be started the program exits and stops nothing: a tunnel client that it has already started,
  when the error came late, from waiting for the client or from the SSH process, runs on without it unless it has
  ended by itself in the meantime. After an early error there is no client.\<close>

theorem failed_start_leaves_client:
  assumes "run_tunnel x ssys tsys tmp f ts d = (Exits e tm, d')"
  shows "(\<exists>cmd. alive tm cmd) \<longleftrightarrow> late_error e \<and> \<not> sys_clientEnds tsys"
proof -
  obtain bin where "Start tsys (NewTunnelManager tmp (tunnel_config f ts bin)) = (Some e, tm)"
    using assms by (auto simp: run_tunnel_def split: prod.splits outcome.splits option.splits)
  then show ?thesis by (rule Start_fails_alive)
qed

subsection \<open>Shutdown\<close>

text \<open>The first shutdown completes: no channel is closed twice, and every part is told to stop.\<close>

lemma shutdown_completes:
  assumes "rn_scanStopped s \<noteq> Some True" and "rn_coverStopped s \<noteq> Some True"
    and "\<not> v_done (rn_udp s)" and "\<forall>v. rn_tcp s = Some v \<longrightarrow> \<not> v_done v"
  shows "\<exists>s'. shutdown s = (Done (), s') \<and> v_done (rn_udp s') \<and> (\<forall>v. rn_tcp s' = Some v \<longrightarrow> v_done v) \<and>
    (\<forall>r. rn_reloader s' = Some r \<longrightarrow> \<not> l_running r) \<and> (\<forall>tm. rn_tunnel s' = Some tm \<longrightarrow> tm_stopped tm) \<and>
    rn_scanStopped s' \<noteq> Some False \<and> rn_coverStopped s' \<noteq> Some False"
proof -
  have "\<exists>ch'. close_once Stop_scanner ch = Done ch' \<and> ch' \<noteq> Some False" if "ch \<noteq> Some True" for ch
    using that by (cases ch) (auto simp: close_once_def Stop_scanner_def)
  then obtain c1 where c1: "close_once Stop_scanner (rn_scanStopped s) = Done c1" "c1 \<noteq> Some False"
    using assms(1) by blast
  have "\<exists>ch'. close_once Stop_cover ch = Done ch' \<and> ch' \<noteq> Some False" if "ch \<noteq> Some True" for ch
    using that by (cases ch) (auto simp: close_once_def Stop_cover_def)
  then obtain c2 where c2: "close_once Stop_cover (rn_coverStopped s) = Done c2" "c2 \<noteq> Some False"
    using assms(2) by blast
  obtain u where u: "Stop_server (rn_udp s) = Done u" "v_done u"
    using assms(3) by (simp add: Stop_server_def)
  obtain t where t: "stop_tcp (rn_tcp s) = Done t" "\<forall>v. t = Some v \<longrightarrow> v_done v"
    using assms(4) by (cases "rn_tcp s") (simp_all add: stop_tcp_def Stop_server_def)
  from c1 c2 u t show ?thesis
    by (auto simp: shutdown_def Let_def Stop_reloader_def stop_begin_def)
qed

subsection \<open>Instances\<close>

definition ex_os :: os where
  "ex_os = \<lparr>os_fs = Map.empty, os_exeDir = None, os_cwd = None, os_join = concat, os_stat = \<lambda>_. None\<rparr>"

definition ex_flags :: flags where
  "ex_flags = default_flags\<lparr>fl_tunnelDomain := ''t.example.com'', fl_tunnelPubkey := ''01'', fl_scanInterval := ''0''\<rparr>"

definition ex_ts :: tunnel_setup where
  "ex_ts = \<lparr>ts_uri = '''', ts_profile = None, ts_domain = ''t.example.com'', ts_pubkey = ''01'', ts_type = ''dnstt'',
     ts_scanDomain = ''t.example.com'', ts_resolvers = [ex_r1], ts_interval = 0\<rparr>"

lemma ex_duration: "ParseDuration ''0'' = Some 0" "ParseDuration ''5m'' = Some 300000000000"
proof -
  have "dur_term ''5m'' = Some (300000000000, [])"
    by (simp add: dur_term_def digit_val_def fraction_part_def split_unit_def unit_char_def unitMap_def two63_def Let_def)
  then have "dur_sum 0 ''5m'' = Some 300000000000"
    by (simp add: dur_sum.simps [of 0] dur_sum.simps [of _ "[]"] two63_def Let_def)
  then show "ParseDuration ''5m'' = Some 300000000000" by (simp add: ParseDuration_def two63_def Let_def)
qed (simp add: ParseDuration_def Let_def)

lemma ex_resolved: "resolve_tunnel ex_os ex_flags [ex_r1] = Inr ex_ts"
  by (simp add: resolve_tunnel_def profile_uri_def parse_profile_def from_profile_def choose_resolvers_def Let_def
      ex_flags_def default_flags_def ex_ts_def ex_duration)

lemma ex_main_mode:
  "main_mode ex_os (default_flags\<lparr>fl_resolvers := [''1.1.1.1'']\<rparr>) =
     Inr (Run_proxy (default_flags\<lparr>fl_resolvers := [''1.1.1.1'']\<rparr>) [\<lparr>Addr = ''1.1.1.1:53'', URL = ''''\<rparr>])"
  by (simp add: main_mode_def parseResolvers_def parseOneResolver_def TrimSpace_plain plain_byte_def Let_def
      default_flags_def tunnel_listen_def choose_resolvers_def)

theorem startup_pool_wellformed_witness:
  "pool_inv (sv_pool (start_proxy (\<lambda>_. None) (\<lambda>_. ex_dead_net) [0] (\<lambda>_. 0) ex_os
       (default_flags\<lparr>fl_resolvers := [''1.1.1.1'']\<rparr>) [\<lparr>Addr = ''1.1.1.1:53'', URL = ''''\<rparr>])) \<and>
   pool_inv (tunnel_pool ex_flags ex_ts)"
  using startup_pool_wellformed ex_main_mode ex_resolved by metis

lemma ex_auto_scanner:
  "auto_scanner ex_flags None ex_ts p = NewAutoScanner p [ex_r1] ''t.example.com'' False [1] 0 20 5000 200"
  by (simp add: auto_scanner_def ex_flags_def default_flags_def ex_ts_def hex_val_def Let_def)

theorem tunnel_starts_blind_witness: "fst (main_wait ex_scan ex_flags None ex_ts) = Blocked"
proof -
  have flags: "0 < fl_scanWorkers ex_flags" "\<not> fl_noScan ex_flags" by (simp_all add: ex_flags_def default_flags_def)
  have "builtin_finds ex_scan (auto_scanner ex_flags None ex_ts (tunnel_pool ex_flags ex_ts))"
    by (simp add: builtin_finds_def ex_auto_scanner NewAutoScanner_def ex_scan_def shuffledResolvers_def ex_verified)
  with tunnel_starts_blind [OF ex_resolved flags(1), where findns = None and sys = ex_scan] flags(2)
  show ?thesis by simp
qed

theorem interval_unchecked_witness:
  "fst (as_run (ex_scan\<lparr>s_order := []\<rparr>) [] (auto_scanner ex_flags None ex_ts (tunnel_pool ex_flags ex_ts))) = Panic"
proof -
  have same: "ex_flags\<lparr>fl_scanInterval := ''0''\<rparr> = ex_flags" "ex_ts\<lparr>ts_interval := 0\<rparr> = ex_ts"
    by (simp_all add: ex_flags_def ex_ts_def)
  have "0 < fl_scanWorkers ex_flags" by (simp add: ex_flags_def default_flags_def)
  moreover have "\<not> findns_finds (ex_scan\<lparr>s_order := []\<rparr>) (auto_scanner ex_flags None ex_ts p)" for p
    by (simp add: findns_finds_def)
  moreover have "\<not> builtin_finds (ex_scan\<lparr>s_order := []\<rparr>) as" for as by (simp add: builtin_finds_def)
  ultimately show ?thesis
    using interval_unchecked [OF ex_resolved _ ex_duration(1), where findns = None and ws = "[]" and sys = "ex_scan\<lparr>s_order := []\<rparr>"]
    by (simp add: same)
qed

theorem generated_profile_sets_up_witness:
  "\<exists>ts. resolve_tunnel ex_os (default_flags\<lparr>fl_tunnelProfile := generateProfileURI ex_config ''127.0.0.1:7000''\<rparr>) [ex_r1] = Inr ts \<and>
     tc_TunnelType (tunnel_config default_flags ts ''slipnet'') = ''noizdns''"
  using generated_profile_sets_up [of ex_config, OF _ _ _ ex_addr, of "[ex_r1]"
      "default_flags\<lparr>fl_tunnelProfile := generateProfileURI ex_config ''127.0.0.1:7000''\<rparr>" 300000000000 ex_os "''slipnet''"]
  by (auto simp: ex_config_def default_flags_def ex_duration tunnel_config_def Let_def)

definition ex_ssh_ts :: tunnel_setup where
  "ex_ssh_ts = ex_ts\<lparr>ts_profile := Some (profile_of ex_fields)\<rparr>"

lemma ex_no_scan: "\<exists>p. main_wait sys (ex_flags\<lparr>fl_noScan := True\<rparr>) findns ex_ssh_ts = (Done (), p)"
  using HealthyCount_ready [OF tunnel_pool_ready' [of ex_ssh_ts "ex_flags\<lparr>fl_noScan := True\<rparr>"]]
  by (auto simp: main_wait_def Let_def ex_ssh_ts_def ex_ts_def)

theorem failed_start_leaves_client_witness:
  "\<exists>tm. run_tunnel ((ex_extract Written)\<lparr>x_bundled := \<lambda>_. None\<rparr>) ex_scan ((ex_sys True)\<lparr>sys_dial := \<lambda>_. (0, False)\<rparr>) ''/tmp/p''
      (ex_flags\<lparr>fl_noScan := True\<rparr>) ex_ssh_ts \<lparr>d_dirs = {}, d_files = Map.empty\<rparr> =
      (Exits NotListening tm, \<lparr>d_dirs = {}, d_files = Map.empty\<rparr>) \<and> (\<exists>cmd. alive tm cmd)"
proof -
  have "\<exists>tm. run_tunnel ((ex_extract Written)\<lparr>x_bundled := \<lambda>_. None\<rparr>) ex_scan ((ex_sys True)\<lparr>sys_dial := \<lambda>_. (0, False)\<rparr>) ''/tmp/p''
      (ex_flags\<lparr>fl_noScan := True\<rparr>) ex_ssh_ts \<lparr>d_dirs = {}, d_files = Map.empty\<rparr> =
      (Exits NotListening tm, \<lparr>d_dirs = {}, d_files = Map.empty\<rparr>)"
  proof -
    have find: "findns_binary ((ex_extract Written)\<lparr>x_bundled := \<lambda>_. None\<rparr>) (ex_flags\<lparr>fl_noScan := True\<rparr>)
        \<lparr>d_dirs = {}, d_files = Map.empty\<rparr> = ((''findns'', ''''), \<lparr>d_dirs = {}, d_files = Map.empty\<rparr>)"
      by (simp add: findns_binary_def extractEmbeddedFindns_def extract_bundled_def ex_flags_def default_flags_def)
    have slip: "slipnet_binary ((ex_extract Written)\<lparr>x_bundled := \<lambda>_. None\<rparr>) (ex_flags\<lparr>fl_noScan := True\<rparr>)
        \<lparr>d_dirs = {}, d_files = Map.empty\<rparr> = ((''slipnet'', ''''), \<lparr>d_dirs = {}, d_files = Map.empty\<rparr>)"
      by (simp add: slipnet_binary_def extractEmbeddedSlipnet_def extract_bundled_def ex_flags_def default_flags_def)
    have "IsSSH (profile_of ex_fields)"
      by (simp add: IsSSH_def profile_of_def ex_fields_def HasSuffix_def)
    then have "\<exists>tm. Start ((ex_sys True)\<lparr>sys_dial := \<lambda>_. (0, False)\<rparr>) (NewTunnelManager ''/tmp/p''
        (tunnel_config (ex_flags\<lparr>fl_noScan := True\<rparr>) ex_ssh_ts ''slipnet'')) = (Some NotListening, tm)"
      by (simp add: Start_def NewTunnelManager_def tunnel_config_def ex_ssh_ts_def default_config_def Let_def
          startLocked_def startWithSSH_def ex_sys_def waitForPort_fails)
    moreover obtain p where "main_wait ex_scan (ex_flags\<lparr>fl_noScan := True\<rparr>) (findns_scanner (s_lookPath ex_scan) ''findns''
        (ex_flags\<lparr>fl_noScan := True\<rparr>) ex_ssh_ts) ex_ssh_ts = (Done (), p)" using ex_no_scan by blast
    ultimately show ?thesis by (auto simp: run_tunnel_def find slip)
  qed
  moreover have "\<not> sys_clientEnds ((ex_sys True)\<lparr>sys_dial := \<lambda>_. (0, False)\<rparr>)" by (simp add: ex_sys_def)
  ultimately show ?thesis using failed_start_leaves_client by (metis late_error_def)
qed

end
