(* ===== verification/Spec2Isabelle.thy ===== *)
theory Spec2Isabelle
  imports ForwardSteps Provenance ListenerSpec Cover Embed MainSpec
begin

text \<open>
  A model of DNS-Multiplexer, a DNS proxy in Go that spreads the queries of a DNS tunnel over many
  public resolvers, and the theorems that say what its components do.

  The program. Clients send DNS queries over UDP or TCP (\<open>proxy.go\<close>). A query is answered from the
  response cache (\<open>cache.go\<close>) or sent to a resolver that the resolver pool (\<open>pool.go\<close>) selects by
  success rate and latency; the outcome is counted in the pool, which takes a resolver out of
  service after ten failures in a row. Resolvers come from a file or the command line (\<open>main.go\<close>),
  may be reloaded when the file changes (\<open>reload.go\<close>), and are replaced by the auto-scanner
  (\<open>autoscan.go\<close>), which verifies candidates with an HMAC challenge (\<open>scanner.go\<close>) or with the
  external program \<open>findns\<close> (\<open>findns.go\<close>). In tunnel mode the program also runs a tunnel client and
  an SSH client as child processes (\<open>tunnel.go\<close>), configured by a profile URI (\<open>config.go\<close>).

  The Go runtime. \<open>Prelude\<close>: integer types, with the wrap-around of \<open>int64\<close> written out, and generic
  lemmas. \<open>GoRuntime\<close>: the outcome of a call (\<open>Done\<close>, \<open>Blocked\<close> for ever, \<open>Panic\<close>), the reader/writer
  mutex, maps with zero values, \<open>rand.Intn\<close> as a supply of arbitrary draws. \<open>GoFloat\<close>: binary64
  rounding, exact on rationals, and the conversion to \<open>int64\<close>. \<open>GoStrings\<close>, \<open>GoBase64\<close>, \<open>GoCrypto\<close>,
  \<open>GoDuration\<close>: the functions of \<open>strings\<close>, \<open>strconv\<close>, \<open>net\<close>, \<open>encoding\<close>, \<open>crypto\<close> and \<open>time\<close> that are
  called, as executable definitions; the contract \<open>text_codec\<close> of an encoding is interpreted on base64, and
  the tables of SHA-256 are computed from the roots of the primes. \<open>Sorting\<close>: the hand-written neighbour-swap
  sort, with the contract \<open>swap_order\<close> of its comparison, under which it is a stable sort;
  interpreted on the comparisons of \<open>autoscan.go\<close> and \<open>scanner.go\<close>.

  The components.
  \<open>Transport\<close> has \<open>sendQueryUDP\<close> and \<open>sendQueryDoH\<close> over a record of the network's answers.
  \<open>Pool\<close> has every method of \<open>ResolverPool\<close> as a function from the pool to an outcome and a pool that
  takes \<open>p.mu\<close> where the method does. \<open>PoolHealth\<close> has the invariant \<open>pool_inv\<close>, its preservation in
  every reachable pool, what \<open>GetNext\<close> returns, the health bookkeeping, and that \<open>UpdateResolvers\<close>
  deadlocks on its own mutex and freezes the pool.
  \<open>DnsMsg\<close> and \<open>Cache\<close> have the cache with the element identities of \<open>container/list\<close>; \<open>CacheSpec\<close>
  refines it to an abstract LRU list and shows, through the contract \<open>ttl_store\<close>, that a hit is an
  unexpired response stored for the same question.
  \<open>Proxy\<close> has \<open>forward\<close>, \<open>handle\<close> and the TCP framing; its contract \<open>upstream_pool\<close> says what an exchange
  needs of the pool, and \<open>ProxySpec\<close> interprets it on the pool. \<open>Workers\<close> runs many queries
  interleaved with the health check, as a step relation over the critical sections; \<open>ForwardSteps\<close> shows that
  these steps implement \<open>forward\<close>, and \<open>Frozen\<close> what is left of them once the pool is locked for good: nothing but the
  additions to the sent counters that were already under way changes the pool.
  \<open>Listener\<close> has the receive loops of both proxies with binding, rebinding and \<open>Stop\<close> as small-step functions
  of a server state, and \<open>ListenerSpec\<close> the contract \<open>receive_loop\<close> that both loops meet: one socket at most,
  and none for good after \<open>Stop\<close> but for one window; a stopped UDP loop ends in three steps, unless it waits for a slot.
  \<open>Cover\<close> has the cover traffic, as a client of \<open>resolver_source\<close>, the part of \<open>upstream_pool\<close> it needs: it leaves the
  pool as it was.
  \<open>Config\<close>, \<open>TunnelArgs\<close>, \<open>Tunnel\<close> and \<open>TunnelSpec\<close> have the profile parser, the command lines and
  profile rewriting, and the process supervision as a step relation between critical sections:
  who is alive, what \<open>Stop\<close> leaves, when the manager gives up, how long it waits for the tunnel client, the
  quoting of the password script.
  \<open>Scanner\<close> and \<open>ScannerSpec\<close> have the two probes in the state monad, the worker loops, the early-ready
  scan and the numbers of the report: the score, soundness of the verification, what is reported when.
  \<open>FindNS\<close>, \<open>AutoScan\<close> and \<open>AutoScanSpec\<close> have the scan rounds: the resolvers installed, the readiness
  signal, the maintenance check, and the two conversions of the results of \<open>findns\<close>. \<open>ResolverList\<close> has the
  parser of resolver files and its round trip with \<open>ExportVerified\<close>; \<open>Reload\<close> the hot reload and its loop.
  \<open>Embed\<close> has the unpacking of the bundled binaries over an explicit file system.
  \<open>MainConfig\<close> has the decisions of \<open>main\<close> and \<open>runTunnelMode\<close> that come before anything runs: the
  options, the mode, the profile against the flags, the scanners' settings. \<open>MainRun\<close> has what runs then: the wait for the
  first scan, the start of the tunnel, its shutdown, the health and hang-up loops. \<open>MainSpec\<close> shows which pools the program can
  start with, which starts fail and what they leave behind.
  \<open>Composition\<close> puts the goroutines together as one step relation over the pool they share. Its invariant
  holds in every reachable state of the program: the counters are exact under every interleaving, and once anything
  has replaced the resolver list the program serves nobody. \<open>Provenance\<close> follows a run together with what its workers
  hear, and traces every answer back to a resolver, through the cache the workers of both proxies share.

  Parameters. The network and the operating system (one record of answers per exchange, start or
  scan), the DNS message library (\<open>unpacker\<close>, \<open>pe_build\<close>, \<open>mkquery\<close>), the output of \<open>findns\<close> already decoded from
  JSON, random draws, clocks, the order in which goroutines finish, the file system, and what the hardware makes of a
  float that does not fit an integer (\<open>oor\<close>), and the shell that reads the password script (\<open>word\<close>, with three rules of
  the POSIX shell language as hypotheses). No property assumes anything of them that is not in its statement.

  Atomic steps. In the interleaved models a step is what a goroutine does under one lock. \<open>MarkSent\<close> is two steps, since it
  adds to the counter after it has given the lock back; on a pool that is locked for good this is the only thing that still
  changes. \<open>GetNext\<close>, a reader that takes its lock up to four times, and a health check are one step each. The start of the
  tunnel holds the manager's mutex and is one step; the client it starts may end in that time (\<open>sys_clientEnds\<close>). A
  \<open>Kill\<close> takes effect at once, and removing a directory always succeeds.

  Bounds and fuel. No fuel is used: loops are structural recursion or have a termination proof. Two loops may run for
  ever and are partial functions: the label loop \<open>dotify_labels\<close>, which is shown to end for positive label lengths,
  and \<open>bindWithRetry\<close>, which is shown to return exactly when an attempt succeeds or the proxy is stopped.
  Lengths and counts are \<open>nat\<close>, counters are 64-bit words and wrap. \<open>ewma_bounds\<close> holds below
  \<open>2 ^ 59\<close> ns. \<open>ToLower\<close> is the ASCII function, which agrees on the escaped names of the DNS library.

  Not modelled: how the \<open>flag\<close> package reads the command line (the options are a record), log lines and the banners, the
  text of error messages, JSON decoding, the reuse of connections by the HTTP client, and the memory model below the
  atomic steps named above. The older version in Python and the shell scripts are not part of the Go program.
\<close>

end
